theory Spec2Isabelle
  imports Complex_Main
begin

section \<open>Python values the client relies on\<close>

text \<open>
  The development embeds \<^verbatim>\<open>pynats/connection.py\<close>: the class \<^verbatim>\<open>Connection\<close> with
  its subscription registry, the frames it sends and the receive loop \<^verbatim>\<open>wait\<close>.
  Strings are byte strings (the file object is opened with mode \<^verbatim>\<open>'rb'\<close>), Python
  integers are \<^typ>\<open>int\<close>, and every exception the code can raise is a value of
  \<open>error\<close>. An exception leaves the object as mutated so far, so every operation returns
  the connection next to its result.
\<close>

datatype error =
    SocketError
  | UnexpectedResponse string
  | UnknownResponse string
  | KeyError
  | AttributeError
  | ValueError
  | TypeError
  | Hangs

text \<open>
  \<open>Hangs\<close> is not a Python exception: it stands for a blocking read that never returns
  because the peer stays silent. Nothing after such a read runs, so it propagates the way
  an uncaught exception does.
\<close>

datatype pyval = PyNone | PyBool bool | PyInt int | PyStr string

definition crlf :: string where
  "crlf = [CHR 0x0D, CHR 0x0A]"

definition isspace :: "char \<Rightarrow> bool" where
  "isspace ch \<longleftrightarrow> ch \<in> set [CHR 0x20, CHR 0x09, CHR 0x0A, CHR 0x0D, CHR 0x0B, CHR 0x0C]"

definition lstrip :: "string \<Rightarrow> string" where
  "lstrip s = dropWhile isspace s"

definition rstrip :: "string \<Rightarrow> string" where
  "rstrip s = rev (dropWhile isspace (rev s))"

definition strip :: "string \<Rightarrow> string" where
  "strip s = rstrip (lstrip s)"

text \<open>\<^verbatim>\<open>s.split(' ', 1)\<close>: cut at the first space, at most once.\<close>

definition split1 :: "string \<Rightarrow> string list" where
  "split1 s =
     (let a = takeWhile (\<lambda>ch. ch \<noteq> CHR 0x20) s;
          b = dropWhile (\<lambda>ch. ch \<noteq> CHR 0x20) s
      in if b = [] then [a] else [a, tl b])"

text \<open>\<^verbatim>\<open>'%d' % n\<close>: the decimal digits of an integer, with a minus sign below zero.\<close>

definition digit_char :: "nat \<Rightarrow> char" where
  "digit_char d = ''0123456789'' ! d"

fun digits :: "nat \<Rightarrow> string" where
  "digits n = (if n < 10 then [digit_char n] else digits (n div 10) @ [digit_char (n mod 10)])"

declare digits.simps [simp del]

definition fmt_d :: "int \<Rightarrow> string" where
  "fmt_d i = (if i < 0 then CHR ''-'' # digits (nat (- i)) else digits (nat i))"

text \<open>
  \<^verbatim>\<open>int(s)\<close> on a string (Python 2, which the \<^verbatim>\<open>str\<close> argument of \<^verbatim>\<open>sendall\<close>
  presupposes): surrounding whitespace is ignored, one sign is allowed, the rest must be
  one or more decimal digits; anything else raises \<^verbatim>\<open>ValueError\<close>, here \<open>None\<close>.
\<close>

definition digit_val :: "char \<Rightarrow> nat option" where
  "digit_val ch = (if ch \<in> set ''0123456789'' then Some (of_char ch - 48) else None)"

fun nat_of_digits :: "nat \<Rightarrow> string \<Rightarrow> nat option" where
  "nat_of_digits acc [] = Some acc"
| "nat_of_digits acc (ch # cs) =
     (case digit_val ch of None \<Rightarrow> None | Some d \<Rightarrow> nat_of_digits (10 * acc + d) cs)"

definition py_int :: "string \<Rightarrow> int option" where
  "py_int s =
     (let t = strip s;
          neg = (t \<noteq> [] \<and> hd t = CHR ''-'');
          u = (if t \<noteq> [] \<and> (hd t = CHR ''-'' \<or> hd t = CHR ''+'') then tl t else t)
      in if u = [] then None
         else (case nat_of_digits 0 u of
                 None \<Rightarrow> None
               | Some n \<Rightarrow> Some (if neg then - int n else int n)))"


section \<open>Message and Subscription\<close>

text \<open>
  Modelled from the spec: the class \<^verbatim>\<open>Message\<close> of \<^verbatim>\<open>pynats/message.py\<close>, which
  the sources at hand do not include. The spec describes it as an immutable value with a
  subscription id, a declared byte size, the raw payload and an optional reply subject;
  the constructor call in \<^verbatim>\<open>_handle_msg\<close> names the fields \<^verbatim>\<open>sid\<close>, \<^verbatim>\<open>size\<close>,
  \<^verbatim>\<open>data\<close> and \<^verbatim>\<open>reply\<close>.
\<close>

record message =
  msg_sid :: int
  msg_size :: int
  msg_data :: string
  msg_reply :: "string option"

text \<open>
  Modelled from the spec: the class \<^verbatim>\<open>Subscription\<close> of \<^verbatim>\<open>pynats/subscription.py\<close>,
  which the sources at hand do not include. The spec describes a passive record binding a
  subscription identifier, subject, queue group and callback, which forwards delivered
  messages to the callback. The back reference to the connection that \<^verbatim>\<open>subscribe\<close>
  passes to the constructor is left out, and a callback is a function of the message
  alone: it neither raises nor calls back into the connection.
\<close>

record subscription =
  sid :: int
  subject :: string
  queue :: string
  callback :: "message \<Rightarrow> pyval"

definition sub_handle_msg :: "subscription \<Rightarrow> message \<Rightarrow> pyval" where
  "sub_handle_msg s m = callback s m"


section \<open>The transport\<close>

text \<open>
  The write side of the socket keeps the arguments of the \<^verbatim>\<open>sendall\<close> calls that
  succeeded, oldest first. Whether a call succeeds is the environment's choice:
  \<open>send_plan\<close> lists the outcomes of the coming calls (\<open>False\<close> is \<^verbatim>\<open>socket.error\<close>),
  and once the list is used up every call succeeds. A failed call records nothing.
\<close>

record sock =
  sent :: "string list"
  send_plan :: "bool list"

definition sendall :: "sock \<Rightarrow> string \<Rightarrow> bool \<times> sock" where
  "sendall sk bytes =
     (case send_plan sk of
        [] \<Rightarrow> (True, sk\<lparr>sent := sent sk @ [bytes]\<rparr>)
      | ok # plan \<Rightarrow>
          if ok then (True, sk\<lparr>sent := sent sk @ [bytes], send_plan := plan\<rparr>)
          else (False, sk\<lparr>send_plan := plan\<rparr>))"

text \<open>
  The read side is the file object made from the socket: the bytes the broker still
  delivers, and what happens when they are used up: the peer has closed the connection
  (\<open>Eof\<close>, \<^verbatim>\<open>readline\<close> returns what is left, at last the empty string), the connection
  breaks (\<open>Reset\<close>, \<^verbatim>\<open>socket.error\<close>), or the peer stays connected and silent (\<open>Silent\<close>,
  the read blocks for ever).
\<close>

datatype rd_end = Eof | Reset | Silent

record rfile =
  pending :: string
  at_end :: rd_end

definition readline :: "rfile \<Rightarrow> (error + string) \<times> rfile" where
  "readline f =
     (let a = takeWhile (\<lambda>ch. ch \<noteq> CHR 0x0A) (pending f);
          b = dropWhile (\<lambda>ch. ch \<noteq> CHR 0x0A) (pending f)
      in if b \<noteq> [] then (Inr (a @ [CHR 0x0A]), f\<lparr>pending := tl b\<rparr>)
         else (case at_end f of
                 Eof \<Rightarrow> (Inr a, f\<lparr>pending := []\<rparr>)
               | Reset \<Rightarrow> (Inl SocketError, f)
               | Silent \<Rightarrow> (Inl Hangs, f)))"


section \<open>Connection\<close>

record connection =
  socket :: "sock option"
  socket_file :: "rfile option"
  subscriptions :: "int \<rightharpoonup> subscription"
  next_sid :: int

text \<open>The constructor: no transport yet, an empty registry, ids start at 1.\<close>

definition init :: connection where
  "init = \<lparr>socket = None, socket_file = None, subscriptions = Map.empty, next_sid = 1\<rparr>"

text \<open>
  \<^verbatim>\<open>_send\<close>: the attribute \<^verbatim>\<open>self._socket.sendall\<close> is looked up first, which raises
  \<^verbatim>\<open>AttributeError\<close> while \<^verbatim>\<open>_socket\<close> is \<^verbatim>\<open>None\<close>; \<^verbatim>\<open>SocketError.wrap\<close> turns
  \<^verbatim>\<open>socket.error\<close> into \<^verbatim>\<open>SocketError\<close>.
\<close>

definition send :: "connection \<Rightarrow> string \<Rightarrow> (error + unit) \<times> connection" where
  "send c command =
     (case socket c of
        None \<Rightarrow> (Inl AttributeError, c)
      | Some sk \<Rightarrow>
          (case sendall sk (command @ crlf) of
             (True, sk') \<Rightarrow> (Inr (), c\<lparr>socket := Some sk'\<rparr>)
           | (False, sk') \<Rightarrow> (Inl SocketError, c\<lparr>socket := Some sk'\<rparr>)))"

definition subscribe ::
  "connection \<Rightarrow> string \<Rightarrow> (message \<Rightarrow> pyval) \<Rightarrow> (error + subscription) \<times> connection" where
  "subscribe c subj cb =
     (let s = \<lparr>sid = next_sid c, subject = subj, queue = [], callback = cb\<rparr>;
          c1 = c\<lparr>subscriptions := (subscriptions c)(sid s \<mapsto> s)\<rparr>
      in case send c1 (''SUB '' @ subject s @ '' '' @ queue s @ '' '' @ fmt_d (sid s)) of
           (Inl e, c2) \<Rightarrow> (Inl e, c2)
         | (Inr _, c2) \<Rightarrow> (Inr s, c2\<lparr>next_sid := next_sid c2 + 1\<rparr>))"

text \<open>\<^verbatim>\<open>dict.pop(key)\<close> without a default raises \<^verbatim>\<open>KeyError\<close> on a missing key.\<close>

definition unsubscribe :: "connection \<Rightarrow> subscription \<Rightarrow> (error + unit) \<times> connection" where
  "unsubscribe c s =
     (case send c (''UNSUB '' @ fmt_d (sid s)) of
        (Inl e, c1) \<Rightarrow> (Inl e, c1)
      | (Inr _, c1) \<Rightarrow>
          (case subscriptions c1 (sid s) of
             None \<Rightarrow> (Inl KeyError, c1)
           | Some _ \<Rightarrow> (Inr (), c1\<lparr>subscriptions := (subscriptions c1)(sid s := None)\<rparr>)))"

definition publish ::
  "connection \<Rightarrow> string \<Rightarrow> string \<Rightarrow> string option \<Rightarrow> (error + unit) \<times> connection" where
  "publish c subj msg reply =
     (let command =
            (case reply of
               None \<Rightarrow> ''PUB '' @ subj @ '' '' @ fmt_d (int (length msg))
             | Some r \<Rightarrow> ''PUB '' @ subj @ '' '' @ r @ '' '' @ fmt_d (int (length msg)))
      in case send c command of
           (Inl e, c1) \<Rightarrow> (Inl e, c1)
         | (Inr _, c1) \<Rightarrow> send c1 msg)"

text \<open>\<^verbatim>\<open>close\<close>: the body is \<^verbatim>\<open>pass\<close>.\<close>

definition close :: "connection \<Rightarrow> (error + unit) \<times> connection" where
  "close c = (Inr (), c)"


section \<open>The command table\<close>

text \<open>
  Modelled from the spec: the module \<^verbatim>\<open>pynats/commands.py\<close> (the dictionary
  \<^verbatim>\<open>commands\<close> and the patterns \<^verbatim>\<open>MSG\<close>, \<^verbatim>\<open>INFO\<close>, \<^verbatim>\<open>PING\<close>, \<^verbatim>\<open>PONG\<close>,
  \<^verbatim>\<open>OK\<close>), which the sources at hand do not include. The spec describes a fixed mapping
  from protocol verbs to a line-matching rule with named fields, and gives the lines:
  commands end in CR LF; \<^verbatim>\<open>PING\<close>, \<^verbatim>\<open>PONG\<close> and \<^verbatim>\<open>+OK\<close> stand alone;
  \<^verbatim>\<open>INFO <json>\<close>; \<^verbatim>\<open>MSG <subject> <sid> [<reply>] <size>\<close>, whose size is numeric.
  A successful match yields the dictionary of named groups, in which an optional group
  that took no part is \<^verbatim>\<open>None\<close>.
\<close>

datatype command = MSG | INFO | PING | PONG | OK

type_synonym groupdict = "string \<rightharpoonup> string option"

definition commands :: "string \<rightharpoonup> command" where
  "commands = [''+OK'' \<mapsto> OK, ''MSG'' \<mapsto> MSG, ''PING'' \<mapsto> PING, ''PONG'' \<mapsto> PONG,
               ''INFO'' \<mapsto> INFO]"

fun split_sp :: "string \<Rightarrow> string list" where
  "split_sp [] = [[]]"
| "split_sp (ch # cs) =
     (if ch = CHR 0x20 then [] # split_sp cs
      else (case split_sp cs of [] \<Rightarrow> [[ch]] | w # ws \<Rightarrow> (ch # w) # ws))"

definition is_digits :: "string \<Rightarrow> bool" where
  "is_digits s \<longleftrightarrow> s \<noteq> [] \<and> list_all (\<lambda>ch. ch \<in> set ''0123456789'') s"

definition msg_groups :: "string \<Rightarrow> string \<Rightarrow> string option \<Rightarrow> string \<Rightarrow> groupdict" where
  "msg_groups subj sd rp sz =
     [''subject'' \<mapsto> Some subj, ''sid'' \<mapsto> Some sd, ''reply'' \<mapsto> rp, ''size'' \<mapsto> Some sz]"

definition match_line :: "command \<Rightarrow> string \<Rightarrow> groupdict option" where
  "match_line cmd line =
     (if 2 \<le> length line \<and> drop (length line - 2) line = crlf then
        let ws = split_sp (take (length line - 2) line) in
        (case cmd of
           PING \<Rightarrow> if ws = [''PING''] then Some Map.empty else None
         | PONG \<Rightarrow> if ws = [''PONG''] then Some Map.empty else None
         | OK \<Rightarrow> if ws = [''+OK''] then Some Map.empty else None
         | INFO \<Rightarrow>
             (case ws of
                v # w # rest \<Rightarrow> if v = ''INFO'' then Some Map.empty else None
              | _ \<Rightarrow> None)
         | MSG \<Rightarrow>
             (case ws of
                [v, subj, sd, sz] \<Rightarrow>
                  if v = ''MSG'' \<and> subj \<noteq> [] \<and> sd \<noteq> [] \<and> is_digits sz
                  then Some (msg_groups subj sd None sz) else None
              | [v, subj, sd, rp, sz] \<Rightarrow>
                  if v = ''MSG'' \<and> subj \<noteq> [] \<and> sd \<noteq> [] \<and> rp \<noteq> [] \<and> is_digits sz
                  then Some (msg_groups subj sd (Some rp) sz) else None
              | _ \<Rightarrow> None))
      else None)"


section \<open>Receiving\<close>

definition get_command :: "string \<Rightarrow> command option" where
  "get_command line = (let values = split1 (strip line) in commands (values ! 0))"

text \<open>
  \<^verbatim>\<open>_recv\<close>: one line is read; a verb outside the table gives \<^verbatim>\<open>None\<close>, which is never
  among the expected commands.
\<close>

definition recv ::
  "connection \<Rightarrow> command list \<Rightarrow> (error + command \<times> groupdict) \<times> connection" where
  "recv c expected_commands =
     (case socket_file c of
        None \<Rightarrow> (Inl AttributeError, c)
      | Some f \<Rightarrow>
          (case readline f of
             (Inl e, f') \<Rightarrow> (Inl e, c\<lparr>socket_file := Some f'\<rparr>)
           | (Inr line, f') \<Rightarrow>
               (let c1 = c\<lparr>socket_file := Some f'\<rparr> in
                case get_command line of
                  None \<Rightarrow> (Inl (UnexpectedResponse line), c1)
                | Some command \<Rightarrow>
                    if command \<notin> set expected_commands
                    then (Inl (UnexpectedResponse line), c1)
                    else (case match_line command line of
                            None \<Rightarrow> (Inl (UnknownResponse line), c1)
                          | Some result \<Rightarrow> (Inr (command, result), c1)))))"

text \<open>\<^verbatim>\<open>data[key]\<close> and \<^verbatim>\<open>int(value)\<close> with the exceptions they raise.\<close>

definition getitem :: "groupdict \<Rightarrow> string \<Rightarrow> error + string option" where
  "getitem d k = (case d k of None \<Rightarrow> Inl KeyError | Some v \<Rightarrow> Inr v)"

definition int_of :: "string option \<Rightarrow> error + int" where
  "int_of v =
     (case v of
        None \<Rightarrow> Inl TypeError
      | Some s \<Rightarrow> (case py_int s of None \<Rightarrow> Inl ValueError | Some i \<Rightarrow> Inr i))"

text \<open>
  \<^verbatim>\<open>_handle_msg\<close> in two parts. The first builds the \<^verbatim>\<open>Message\<close>: the ids are
  converted, then the payload is the next line of the stream, stripped.
\<close>

definition build_msg :: "connection \<Rightarrow> groupdict \<Rightarrow> (error + message) \<times> connection" where
  "build_msg c data =
     (case getitem data ''sid'' of Inl e \<Rightarrow> (Inl e, c) | Inr v_sid \<Rightarrow>
      case int_of v_sid of Inl e \<Rightarrow> (Inl e, c) | Inr sid' \<Rightarrow>
      case getitem data ''size'' of Inl e \<Rightarrow> (Inl e, c) | Inr v_size \<Rightarrow>
      case int_of v_size of Inl e \<Rightarrow> (Inl e, c) | Inr size' \<Rightarrow>
      case socket_file c of None \<Rightarrow> (Inl AttributeError, c) | Some f \<Rightarrow>
      case readline f of
        (Inl e, f') \<Rightarrow> (Inl e, c\<lparr>socket_file := Some f'\<rparr>)
      | (Inr line, f') \<Rightarrow>
          (let c1 = c\<lparr>socket_file := Some f'\<rparr> in
           case getitem data ''reply'' of Inl e \<Rightarrow> (Inl e, c1) | Inr v_reply \<Rightarrow>
             (Inr \<lparr>msg_sid = sid', msg_size = size', msg_data = strip line,
                   msg_reply = map_option strip v_reply\<rparr>, c1)))"

text \<open>
  The second part looks the subscription up with \<^verbatim>\<open>dict.get\<close> and calls
  \<^verbatim>\<open>handle_msg\<close> on what it found; on \<^verbatim>\<open>None\<close> the attribute access raises.
\<close>

definition handle_msg :: "connection \<Rightarrow> groupdict \<Rightarrow> (error + pyval) \<times> connection" where
  "handle_msg c result =
     (case build_msg c result of
        (Inl e, c1) \<Rightarrow> (Inl e, c1)
      | (Inr msg, c1) \<Rightarrow>
          (case subscriptions c1 (msg_sid msg) of
             None \<Rightarrow> (Inl AttributeError, c1)
           | Some s \<Rightarrow> (Inr (sub_handle_msg s msg), c1)))"

definition handle_ping :: "connection \<Rightarrow> (error + unit) \<times> connection" where
  "handle_ping c = send c ''PONG''"


section \<open>The receive loop\<close>

text \<open>
  \<^verbatim>\<open>time.time()\<close> is the environment's: \<open>clock k\<close> is the reading the \<open>k\<close>-th call
  returns. Readings are Python floats, that is IEEE 754 doubles, here the real numbers
  they denote. A difference of two floats is the exact difference rounded to the nearest
  double, ties to the even significand: with \<open>2 ^ e\<close> the spacing of the doubles around
  \<open>x\<close> (53 significant bits, no finer than \<open>2 ^ - 1074\<close>), \<open>to_float x\<close> is the nearest
  multiple of it. Results beyond the largest double, infinities and NaN are left out.
\<close>

definition round_even :: "real \<Rightarrow> int" where
  "round_even r =
     (let f = \<lfloor>r\<rfloor> in
      if r - of_int f < 1 / 2 then f
      else if 1 / 2 < r - of_int f then f + 1
      else if even f then f else f + 1)"

definition to_float :: "real \<Rightarrow> real" where
  "to_float x =
     (if x = 0 then 0
      else
        let e = max (\<lfloor>log 2 \<bar>x\<bar>\<rfloor> - 52) (- 1074)
        in of_int (round_even (x / 2 powi e)) * 2 powi e)"

text \<open>
  The last statement of the loop body, \<^verbatim>\<open>if duration and time.time() - time.time() - start\<close>,
  reads the clock twice, and only when \<^verbatim>\<open>duration\<close> is neither \<^verbatim>\<open>None\<close> nor zero; it
  yields whether to break and the number of readings taken so far.
\<close>

definition duration_test :: "(nat \<Rightarrow> real) \<Rightarrow> nat \<Rightarrow> real option \<Rightarrow> real \<Rightarrow> bool \<times> nat" where
  "duration_test clock k duration start =
     (case duration of
        None \<Rightarrow> (False, k)
      | Some d \<Rightarrow>
          if d = 0 then (False, k)
          else (to_float (to_float (clock k - clock (k + 1)) - start) \<noteq> 0, k + 2))"

datatype step = Raised error connection | Break connection | Next int nat connection

definition end_of_body ::
  "(nat \<Rightarrow> real) \<Rightarrow> real option \<Rightarrow> real \<Rightarrow> int \<Rightarrow> nat \<Rightarrow> connection \<Rightarrow> step" where
  "end_of_body clock duration start total_n k c =
     (case duration_test clock k duration start of
        (True, k') \<Rightarrow> Break c
      | (False, k') \<Rightarrow> Next total_n k' c)"

text \<open>One pass through the body of \<^verbatim>\<open>while True\<close>.\<close>

definition wait_body ::
  "(nat \<Rightarrow> real) \<Rightarrow> real option \<Rightarrow> int \<Rightarrow> real \<Rightarrow> int \<Rightarrow> nat \<Rightarrow> connection \<Rightarrow> step" where
  "wait_body clock duration count start total_n k c =
     (case recv c [MSG, PING, OK] of
        (Inl e, c1) \<Rightarrow> Raised e c1
      | (Inr (type, result), c1) \<Rightarrow>
          if type = MSG then
            (case handle_msg c1 result of
               (Inl e, c2) \<Rightarrow> Raised e c2
             | (Inr r, c2) \<Rightarrow>
                 if r = PyBool False then Break c2
                 else if count \<noteq> 0 \<and> count \<ge> total_n + 1 then Break c2
                 else end_of_body clock duration start (total_n + 1) k c2)
          else if type = PING then
            (case handle_ping c1 of
               (Inl e, c2) \<Rightarrow> Raised e c2
             | (Inr _, c2) \<Rightarrow> end_of_body clock duration start total_n k c2)
          else end_of_body clock duration start total_n k c1)"

definition unread :: "connection \<Rightarrow> nat" where
  "unread c = (case socket_file c of None \<Rightarrow> 0 | Some f \<Rightarrow> length (pending f))"


section \<open>Notions the statements use\<close>

text \<open>
  \<open>plan_ok n sk\<close>: the next \<open>n\<close> calls of \<^verbatim>\<open>sendall\<close> on the socket succeed;
  \<open>sends_ok n c\<close>: the connection has a socket for which this holds.
\<close>

definition plan_ok :: "nat \<Rightarrow> sock \<Rightarrow> bool" where
  "plan_ok n sk = list_all (\<lambda>ok. ok) (take n (send_plan sk))"

definition sends_ok :: "nat \<Rightarrow> connection \<Rightarrow> bool" where
  "sends_ok n c = (case socket c of None \<Rightarrow> False | Some sk \<Rightarrow> plan_ok n sk)"

text \<open>
  Two predicates on the registry: every registered id is at most, respectively below,
  the counter \<^verbatim>\<open>_next_sid\<close>. The first holds for a new connection and is kept by every
  operation.
\<close>

definition ids_at_most_next :: "connection \<Rightarrow> bool" where
  "ids_at_most_next c \<longleftrightarrow> (\<forall>i \<in> dom (subscriptions c). i \<le> next_sid c)"

definition ids_below_next :: "connection \<Rightarrow> bool" where
  "ids_below_next c \<longleftrightarrow> (\<forall>i \<in> dom (subscriptions c). i < next_sid c)"

text \<open>
  A run of \<^verbatim>\<open>subscribe\<close> calls on one connection, by a caller that goes on after a
  call that raised: for every call the connection before it, what it returned or raised,
  and the connection after it. \<open>returned_ids\<close> are the ids of the subscriptions that were
  returned, in the order of the calls.
\<close>

fun subscribe_run ::
  "connection \<Rightarrow> (string \<times> (message \<Rightarrow> pyval)) list
     \<Rightarrow> (connection \<times> (error + subscription) \<times> connection) list" where
  "subscribe_run c [] = []"
| "subscribe_run c ((subj, cb) # calls) =
     (c, fst (subscribe c subj cb), snd (subscribe c subj cb))
       # subscribe_run (snd (subscribe c subj cb)) calls"

fun returned_ids :: "(connection \<times> (error + subscription) \<times> connection) list \<Rightarrow> int list" where
  "returned_ids [] = []"
| "returned_ids ((c0, Inl e, c1) # run) = returned_ids run"
| "returned_ids ((c0, Inr s, c1) # run) = sid s # returned_ids run"

text \<open>
  What holds after one call. A call that returns has handed out the value the counter had
  before, advanced the counter by one and registered the subscription under its id; the
  counter is then above every registered id, and the id was free before the call if the
  counter was above every registered id then. A call that raises (the \<^verbatim>\<open>SUB\<close> frame
  could not be sent) has stored its subscription but not advanced the counter: the
  counter's own value is registered, so every registered id is at most, and not every one
  below, the counter.
\<close>

definition after_call :: "connection \<Rightarrow> (error + subscription) \<Rightarrow> connection \<Rightarrow> bool" where
  "after_call c0 r c1 =
     (case r of
        Inr s \<Rightarrow>
          sid s = next_sid c0 \<and> next_sid c1 = next_sid c0 + 1
          \<and> subscriptions c1 (sid s) = Some s \<and> ids_below_next c1
          \<and> (ids_below_next c0 \<longrightarrow> subscriptions c0 (sid s) = None)
      | Inl e \<Rightarrow>
          next_sid c1 = next_sid c0 \<and> subscriptions c1 (next_sid c1) \<noteq> None
          \<and> ids_at_most_next c1 \<and> \<not> ids_below_next c1)"

text \<open>
  The line the next \<^verbatim>\<open>readline\<close> on the file object returns, with the connection after
  it; and the size a \<^verbatim>\<open>MSG\<close> header declares, as \<^verbatim>\<open>int(data['size'])\<close> gives it.
\<close>

definition next_line :: "connection \<Rightarrow> (string \<times> connection) option" where
  "next_line c =
     (case socket_file c of
        None \<Rightarrow> None
      | Some f \<Rightarrow>
          (case readline f of
             (Inl e, f') \<Rightarrow> None
           | (Inr line, f') \<Rightarrow> Some (line, c\<lparr>socket_file := Some f'\<rparr>)))"

definition declared_size :: "groupdict \<Rightarrow> error + int" where
  "declared_size data = (case getitem data ''size'' of Inl e \<Rightarrow> Inl e | Inr v \<Rightarrow> int_of v)"

text \<open>
  A word has at least one character and no whitespace; subjects on the wire are words.
\<close>

definition word :: "string \<Rightarrow> bool" where
  "word w \<longleftrightarrow> w \<noteq> [] \<and> list_all (\<lambda>ch. \<not> isspace ch) w"

definition is_digit :: "char \<Rightarrow> bool" where
  "is_digit ch \<longleftrightarrow> ch \<in> set ''0123456789''"

text \<open>
  Modelled from the spec: the broker, which is not part of the client. It delivers a
  published payload to a subscription as \<^verbatim>\<open>MSG <subject> <sid> <size>\<close>, CR LF, the
  payload, CR LF, where the declared size is the length of the payload, as \<^verbatim>\<open>publish\<close>
  announced it. \<open>header\<close> is the first line without its line end.
\<close>

definition header :: "string \<Rightarrow> int \<Rightarrow> nat \<Rightarrow> string" where
  "header subj i n = ''MSG '' @ subj @ '' '' @ fmt_d i @ '' '' @ fmt_d (int n)"

definition echo :: "string \<Rightarrow> int \<Rightarrow> string \<Rightarrow> string" where
  "echo subj i payload = header subj i (length payload) @ crlf @ payload @ crlf"

text \<open>
  A connected session to state examples on: one subscription, with id 1, on the subject
  \<^verbatim>\<open>foo\<close>, whose callback returns \<^verbatim>\<open>None\<close>; nothing sent yet; the given bytes
  waiting to be read from a broker that then stays silent.
\<close>

definition no_reply :: "message \<Rightarrow> pyval" where
  "no_reply m = PyNone"

definition sub_foo :: subscription where
  "sub_foo = \<lparr>sid = 1, subject = ''foo'', queue = [], callback = no_reply\<rparr>"

definition session_with :: "string \<Rightarrow> connection" where
  "session_with input =
     \<lparr>socket = Some \<lparr>sent = [], send_plan = []\<rparr>,
      socket_file = Some \<lparr>pending = input, at_end = Silent\<rparr>,
      subscriptions = [1 \<mapsto> sub_foo],
      next_sid = 2\<rparr>"

text \<open>
  The same session on a socket whose second \<^verbatim>\<open>sendall\<close> fails, and a message frame
  for subscription 1 with a declared size of 2.
\<close>

definition flaky :: connection where
  "flaky = (session_with [])\<lparr>socket := Some \<lparr>sent = [], send_plan = [True, False, True]\<rparr>\<rparr>"

definition frame :: "string \<Rightarrow> string" where
  "frame payload = ''MSG foo 1 2'' @ crlf @ payload @ crlf"

text \<open>
  The session on a socket whose first \<^verbatim>\<open>sendall\<close> fails, and the session that has
  published \<^verbatim>\<open>hello\<close> on \<^verbatim>\<open>foo\<close> and has the broker's frame for it waiting.
\<close>

definition lossy :: connection where
  "lossy = (session_with [])\<lparr>socket := Some \<lparr>sent = [], send_plan = [False]\<rparr>\<rparr>"

definition hello_published :: connection where
  "hello_published =
     (session_with (echo ''foo'' 1 ''hello''))
       \<lparr>socket := Some \<lparr>sent = [''PUB foo 5'' @ crlf, ''hello'' @ crlf], send_plan = []\<rparr>\<rparr>"


section \<open>Every pass of the loop consumes input\<close>

lemma readline_newline:
  assumes "CHR 0x0A \<in> set (pending f)"
  shows "readline f =
    (Inr (takeWhile (\<lambda>ch. ch \<noteq> CHR 0x0A) (pending f) @ [CHR 0x0A]),
     f\<lparr>pending := tl (dropWhile (\<lambda>ch. ch \<noteq> CHR 0x0A) (pending f))\<rparr>)"
proof -
  from assms have "dropWhile (\<lambda>ch. ch \<noteq> CHR 0x0A) (pending f) \<noteq> []"
    by (simp add: dropWhile_eq_Nil_conv)
  then show ?thesis
    unfolding readline_def Let_def by (rule if_P)
qed

lemma readline_no_newline:
  assumes "CHR 0x0A \<notin> set (pending f)"
  shows "readline f =
    (case at_end f of
       Eof \<Rightarrow> (Inr (pending f), f\<lparr>pending := []\<rparr>)
     | Reset \<Rightarrow> (Inl SocketError, f)
     | Silent \<Rightarrow> (Inl Hangs, f))"
proof -
  from assms have d: "dropWhile (\<lambda>ch. ch \<noteq> CHR 0x0A) (pending f) = []"
    by (auto simp: dropWhile_eq_Nil_conv)
  from assms have t: "takeWhile (\<lambda>ch. ch \<noteq> CHR 0x0A) (pending f) = pending f"
    by (auto simp: takeWhile_eq_all_conv)
  show ?thesis
    unfolding readline_def Let_def d t by simp
qed

lemma length_tl_dropWhile_less:
  assumes "x \<in> set xs"
  shows "length (tl (dropWhile (\<lambda>y. y \<noteq> x) xs)) < length xs"
proof -
  from assms have "dropWhile (\<lambda>y. y \<noteq> x) xs \<noteq> []"
    by (simp add: dropWhile_eq_Nil_conv)
  then have "length (tl (dropWhile (\<lambda>y. y \<noteq> x) xs)) < length (dropWhile (\<lambda>y. y \<noteq> x) xs)"
    by (cases "dropWhile (\<lambda>y. y \<noteq> x) xs") simp_all
  also have "\<dots> \<le> length xs"
    by (rule length_dropWhile_le)
  finally show ?thesis .
qed

lemma readline_pending_less:
  assumes "readline f = (Inr line, f')" and "line \<noteq> []"
  shows "length (pending f') < length (pending f)"
proof (cases "CHR 0x0A \<in> set (pending f)")
  case True
  from assms(1) have "f' = f\<lparr>pending := tl (dropWhile (\<lambda>ch. ch \<noteq> CHR 0x0A) (pending f))\<rparr>"
    unfolding readline_newline [OF True] by simp
  then show ?thesis
    using length_tl_dropWhile_less [OF True] by simp
next
  case False
  from assms show ?thesis
    unfolding readline_no_newline [OF False] by (cases "at_end f") auto
qed

lemma readline_pending_le:
  assumes "readline f = (r, f')"
  shows "length (pending f') \<le> length (pending f)"
proof (cases "CHR 0x0A \<in> set (pending f)")
  case True
  from assms have "f' = f\<lparr>pending := tl (dropWhile (\<lambda>ch. ch \<noteq> CHR 0x0A) (pending f))\<rparr>"
    unfolding readline_newline [OF True] by simp
  then show ?thesis
    using length_tl_dropWhile_less [OF True] by simp
next
  case False
  from assms show ?thesis
    unfolding readline_no_newline [OF False] by (cases "at_end f") auto
qed

lemma strip_Nil: "strip [] = []"
  by (simp add: strip_def lstrip_def rstrip_def)

lemma split1_Nil: "split1 [] = [[]]"
  by (simp add: split1_def)

lemma commands_Nil: "commands [] = None"
  by (simp add: commands_def)

lemma get_command_Nil: "get_command [] = None"
  by (simp add: get_command_def strip_Nil split1_Nil commands_Nil)

lemma recv_unread_less:
  assumes "recv c ex = (Inr x, c1)"
  shows "unread c1 < unread c"
proof (cases "socket_file c")
  case None
  with assms show ?thesis by (simp add: recv_def)
next
  case (Some f)
  obtain r f' where rl: "readline f = (r, f')"
    by (cases "readline f")
  show ?thesis
  proof (cases r)
    case (Inl e)
    with assms Some rl show ?thesis by (simp add: recv_def)
  next
    case (Inr line)
    have c1: "c1 = c\<lparr>socket_file := Some f'\<rparr>"
      using assms Some rl Inr
      by (simp add: recv_def Let_def split: option.splits if_splits)
    have "line \<noteq> []"
    proof
      assume "line = []"
      with assms Some rl Inr show False
        by (simp add: recv_def Let_def get_command_Nil)
    qed
    with rl Inr have "length (pending f') < length (pending f)"
      by (simp add: readline_pending_less)
    with Some c1 show ?thesis
      by (simp add: unread_def)
  qed
qed

lemma send_unread: "send c cmd = (r, c1) \<Longrightarrow> unread c1 = unread c"
  by (cases "socket c") (auto simp: send_def unread_def split: prod.splits bool.splits)

lemma build_msg_unread:
  assumes "build_msg c d = (r, c1)"
  shows "unread c1 \<le> unread c"
proof (cases "socket_file c")
  case None
  with assms have "c1 = c"
    by (simp add: build_msg_def split: sum.splits)
  then show ?thesis by simp
next
  case (Some f)
  obtain x f' where rl: "readline f = (x, f')"
    by (cases "readline f")
  then have le: "length (pending f') \<le> length (pending f)"
    by (rule readline_pending_le)
  from assms Some rl have "c1 = c \<or> c1 = c\<lparr>socket_file := Some f'\<rparr>"
    by (simp add: build_msg_def Let_def split: sum.splits)
  with Some le show ?thesis
    by (auto simp: unread_def)
qed

lemma handle_msg_unread:
  assumes "handle_msg c d = (r, c1)"
  shows "unread c1 \<le> unread c"
proof -
  obtain x c' where b: "build_msg c d = (x, c')"
    by (cases "build_msg c d")
  with assms have "c1 = c'"
    by (simp add: handle_msg_def split: sum.splits option.splits)
  with b show ?thesis
    by (simp add: build_msg_unread)
qed

lemma end_of_body_Next:
  "end_of_body clock duration start t k c = Next t' k' c' \<Longrightarrow> c' = c"
  by (simp add: end_of_body_def split: prod.splits bool.splits)

lemma wait_body_unread:
  assumes "wait_body clock duration count start total_n k c = Next t' k' c'"
  shows "unread c' < unread c"
proof -
  obtain r c1 where rc: "recv c [MSG, PING, OK] = (r, c1)"
    by (cases "recv c [MSG, PING, OK]")
  show ?thesis
  proof (cases r)
    case (Inl e)
    with assms rc show ?thesis by (simp add: wait_body_def)
  next
    case (Inr tr)
    obtain type result where tr: "tr = (type, result)"
      by (cases tr)
    from rc Inr have less: "unread c1 < unread c"
      by (simp add: recv_unread_less)
    consider (msg) "type = MSG" | (ping) "type = PING" | (other) "type \<noteq> MSG" "type \<noteq> PING"
      by blast
    then show ?thesis
    proof cases
      case msg
      obtain h c2 where h: "handle_msg c1 result = (h, c2)"
        by (cases "handle_msg c1 result")
      then have le: "unread c2 \<le> unread c1"
        by (rule handle_msg_unread)
      from assms rc Inr tr msg h have "c' = c2"
        by (auto simp: wait_body_def split: sum.splits if_splits dest: end_of_body_Next)
      with le less show ?thesis by simp
    next
      case ping
      obtain h c2 where h: "handle_ping c1 = (h, c2)"
        by (cases "handle_ping c1")
      then have eq: "unread c2 = unread c1"
        unfolding handle_ping_def by (rule send_unread)
      from assms rc Inr tr ping h have "c' = c2"
        by (auto simp: wait_body_def split: sum.splits dest: end_of_body_Next)
      with eq less show ?thesis by simp
    next
      case other
      with assms rc Inr tr have "c' = c1"
        by (auto simp: wait_body_def dest: end_of_body_Next)
      with less show ?thesis by simp
    qed
  qed
qed

text \<open>
  \<^verbatim>\<open>wait\<close>: the loop, then the method. The loop is total because every pass that
  reaches its end has consumed input.
\<close>

function wait_loop ::
  "(nat \<Rightarrow> real) \<Rightarrow> real option \<Rightarrow> int \<Rightarrow> real \<Rightarrow> int \<Rightarrow> nat \<Rightarrow> connection
     \<Rightarrow> (error + unit) \<times> connection" where
  "wait_loop clock duration count start total_n k c =
     (case wait_body clock duration count start total_n k c of
        Raised e c' \<Rightarrow> (Inl e, c')
      | Break c' \<Rightarrow> (Inr (), c')
      | Next total_n' k' c' \<Rightarrow> wait_loop clock duration count start total_n' k' c')"
  by pat_completeness auto
termination
proof (relation "measure (\<lambda>(clock, duration, count, start, total_n, k, c). unread c)")
  show "wf (measure (\<lambda>(clock :: nat \<Rightarrow> real, duration :: real option, count :: int,
                       start :: real, total_n :: int, k :: nat, c). unread c))"
    by (rule wf_measure)
next
  fix clock :: "nat \<Rightarrow> real" and duration :: "real option" and count :: int
    and start :: real and total_n :: int and k :: nat and c t' k' c'
  assume "wait_body clock duration count start total_n k c = Next t' k' c'"
  then have "unread c' < unread c"
    by (rule wait_body_unread)
  then show "((clock, duration, count, start, t', k', c'),
              (clock, duration, count, start, total_n, k, c))
             \<in> measure (\<lambda>(clock, duration, count, start, total_n, k, c). unread c)"
    by simp
qed

declare wait_loop.simps [simp del]

definition wait ::
  "(nat \<Rightarrow> real) \<Rightarrow> connection \<Rightarrow> real option \<Rightarrow> int \<Rightarrow> (error + unit) \<times> connection" where
  "wait clock c duration count = wait_loop clock duration count (clock 0) 0 1 c"


section \<open>The transport while it works\<close>

lemma sendall_ok:
  assumes "plan_ok (Suc n) sk"
  shows "fst (sendall sk bytes) = True"
    and "sent (snd (sendall sk bytes)) = sent sk @ [bytes]"
    and "plan_ok n (snd (sendall sk bytes))"
  using assms by (cases "send_plan sk"; simp add: plan_ok_def sendall_def)+

lemma send_ok:
  assumes "socket c = Some sk" and "plan_ok (Suc n) sk"
  shows "send c cmd = (Inr (), c\<lparr>socket := Some (snd (sendall sk (cmd @ crlf)))\<rparr>)"
proof -
  obtain b sk' where s: "sendall sk (cmd @ crlf) = (b, sk')"
    by (cases "sendall sk (cmd @ crlf)")
  with sendall_ok(1) [OF assms(2), of "cmd @ crlf"] have "b = True" by simp
  with s assms(1) show ?thesis by (simp add: send_def)
qed

lemma send_registry:
  "subscriptions (snd (send c cmd)) = subscriptions c"
  "next_sid (snd (send c cmd)) = next_sid c"
  "socket_file (snd (send c cmd)) = socket_file c"
  by (cases "socket c"; simp add: send_def split: prod.splits bool.splits)+

lemma send_cases:
  obtains (failed) e where "fst (send c cmd) = Inl e" | (sent) "fst (send c cmd) = Inr ()"
  by (cases "fst (send c cmd)") auto

lemma recv_registry:
  "subscriptions (snd (recv c ex)) = subscriptions c"
  "socket (snd (recv c ex)) = socket c"
  "next_sid (snd (recv c ex)) = next_sid c"
  by (simp_all add: recv_def Let_def split: option.splits prod.splits sum.splits)

lemma build_msg_registry:
  "subscriptions (snd (build_msg c d)) = subscriptions c"
  "socket (snd (build_msg c d)) = socket c"
  "next_sid (snd (build_msg c d)) = next_sid c"
  by (simp_all add: build_msg_def Let_def split: option.splits prod.splits sum.splits)


section \<open>Float arithmetic on whole numbers\<close>

text \<open>
  Whole numbers below \<open>2 ^ 53\<close> in magnitude are doubles, so a difference that is such a
  number is exact.
\<close>

lemma round_even_int: "round_even (of_int m) = m"
  by (simp add: round_even_def)

lemma to_float_int:
  assumes "\<bar>n\<bar> < 2 ^ 53"
  shows "to_float (of_int n) = of_int n"
proof (cases "n = 0")
  case True
  then show ?thesis by (simp add: to_float_def)
next
  case False
  define k where "k = \<lfloor>log 2 \<bar>real_of_int n\<bar>\<rfloor>"
  from False have one: "1 \<le> \<bar>real_of_int n\<bar>"
    by linarith
  then have "0 \<le> log 2 \<bar>real_of_int n\<bar>"
    by simp
  then have k0: "0 \<le> k"
    by (simp add: k_def)
  from assms have "\<bar>real_of_int n\<bar> < 2 ^ 53"
    by (metis of_int_abs of_int_less_numeral_power_cancel_iff)
  then have "\<bar>real_of_int n\<bar> < 2 powr 53"
    by simp
  with one have "log 2 \<bar>real_of_int n\<bar> < 53"
    by (simp add: log_less_iff)
  then have k52: "k \<le> 52"
    unfolding k_def by linarith
  define j where "j = nat (52 - k)"
  from k0 k52 have e: "max (k - 52) (- 1074) = - int j"
    by (simp add: j_def)
  have pw: "(2 :: real) powi (- int j) = 1 / 2 ^ j"
    by (simp add: power_int_minus field_simps)
  have "real_of_int n / 2 powi (- int j) = of_int (n * 2 ^ j)"
    by (simp add: pw)
  then have "round_even (real_of_int n / 2 powi (- int j)) = n * 2 ^ j"
    by (simp only: round_even_int)
  with False show ?thesis
    by (simp add: to_float_def k_def [symmetric] e Let_def pw)
qed

lemma float_diffs:
  "to_float (- 1) = - 1" "to_float (- 1001) = - 1001"
  "to_float (- 20) = - 20" "to_float (- 120) = - 120"
  using to_float_int [of "- 1"] to_float_int [of "- 1001"]
    to_float_int [of "- 20"] to_float_int [of "- 120"]
  by simp_all


section \<open>Formatting and parsing\<close>

text \<open>
  \<^verbatim>\<open>int\<close> reads back what \<^verbatim>\<open>%d\<close> wrote, whitespace at the end of a line does not
  survive \<^verbatim>\<open>strip\<close>, and a header line written by the broker is classified and matched
  as a \<^verbatim>\<open>MSG\<close> frame.
\<close>

lemma digit_char_props:
  assumes "d < 10"
  shows "is_digit (digit_char d)" and "digit_val (digit_char d) = Some d"
proof -
  have all: "\<forall>d \<in> {0, 1, 2, 3, 4, 5, 6, 7, 8, 9 :: nat}.
      is_digit (digit_char d) \<and> digit_val (digit_char d) = Some d"
    by (simp add: is_digit_def digit_char_def digit_val_def)
  from assms have "d \<in> {0, 1, 2, 3, 4, 5, 6, 7, 8, 9 :: nat}"
    by auto
  with all show "is_digit (digit_char d)" and "digit_val (digit_char d) = Some d"
    by blast+
qed

lemma is_digit_not_space: "is_digit ch \<Longrightarrow> \<not> isspace ch \<and> ch \<noteq> CHR ''-'' \<and> ch \<noteq> CHR ''+''"
  by (auto simp: is_digit_def isspace_def)

lemma digits_props: "digits n \<noteq> [] \<and> list_all is_digit (digits n)"
proof (induction n rule: digits.induct)
  case (1 n)
  show ?case
  proof (cases "n < 10")
    case True
    then show ?thesis
      by (subst (1 2) digits.simps) (simp add: digit_char_props)
  next
    case False
    with 1 show ?thesis
      by (subst (1 2) digits.simps) (simp add: digit_char_props)
  qed
qed

lemma nat_of_digits_snoc:
  "nat_of_digits acc (xs @ [ch]) =
     (case nat_of_digits acc xs of
        None \<Rightarrow> None
      | Some a \<Rightarrow> (case digit_val ch of None \<Rightarrow> None | Some d \<Rightarrow> Some (10 * a + d)))"
  by (induction xs arbitrary: acc) (simp_all split: option.splits)

lemma nat_of_digits_digits: "nat_of_digits 0 (digits n) = Some n"
proof (induction n rule: digits.induct)
  case (1 n)
  show ?case
  proof (cases "n < 10")
    case True
    then show ?thesis
      by (subst digits.simps) (simp add: digit_char_props)
  next
    case False
    with 1 have "nat_of_digits 0 (digits (n div 10)) = Some (n div 10)"
      by simp
    with False show ?thesis
      by (subst digits.simps) (simp add: nat_of_digits_snoc digit_char_props)
  qed
qed

lemma lstrip_id: "s \<noteq> [] \<Longrightarrow> \<not> isspace (hd s) \<Longrightarrow> lstrip s = s"
  by (cases s) (simp_all add: lstrip_def)

lemma rstrip_id: "s \<noteq> [] \<Longrightarrow> \<not> isspace (last s) \<Longrightarrow> rstrip s = s"
proof -
  assume "s \<noteq> []" and "\<not> isspace (last s)"
  then have "dropWhile isspace (rev s) = rev s"
    by (cases "rev s") (simp_all add: last_rev [symmetric] hd_rev)
  then show ?thesis
    by (simp add: rstrip_def)
qed

lemma strip_id: "s \<noteq> [] \<Longrightarrow> \<not> isspace (hd s) \<Longrightarrow> \<not> isspace (last s) \<Longrightarrow> strip s = s"
  by (simp add: strip_def lstrip_id rstrip_id)

lemma rstrip_trailing:
  assumes "list_all isspace ws"
  shows "rstrip (s @ ws) = rstrip s"
proof -
  from assms have "dropWhile isspace (rev ws @ rev s) = dropWhile isspace (rev s)"
    by (intro dropWhile_append2) (simp add: list_all_iff)
  then show ?thesis
    by (simp add: rstrip_def)
qed

lemma strip_trailing:
  assumes "list_all isspace ws"
  shows "strip (s @ ws) = strip s"
proof (cases "list_all isspace s")
  case True
  with assms have "lstrip (s @ ws) = []" and "lstrip s = []"
    by (simp_all add: lstrip_def list_all_iff)
  then show ?thesis
    by (simp add: strip_def)
next
  case False
  then obtain x where "x \<in> set s" and "\<not> isspace x"
    by (auto simp: list_all_iff)
  then have "lstrip (s @ ws) = lstrip s @ ws"
    unfolding lstrip_def by (intro dropWhile_append1)
  with assms show ?thesis
    by (simp add: strip_def rstrip_trailing)
qed

lemma crlf_spaces: "list_all isspace crlf"
  by (simp add: crlf_def isspace_def)

lemma fmt_d_shape:
  "fmt_d i \<noteq> []"
  "\<not> isspace (hd (fmt_d i))"
  "\<not> isspace (last (fmt_d i))"
  "list_all (\<lambda>ch. \<not> isspace ch) (fmt_d i)"
proof -
  have d: "digits n \<noteq> []" "list_all is_digit (digits n)" for n
    using digits_props [of n] by simp_all
  have ns: "list_all (\<lambda>ch. \<not> isspace ch) (digits n)" for n
    using d(2) [of n] by (auto simp: list_all_iff is_digit_not_space)
  have minus: "\<not> isspace CHR ''-''"
    by (simp add: isspace_def)
  show "fmt_d i \<noteq> []"
    by (simp add: fmt_d_def d)
  show all: "list_all (\<lambda>ch. \<not> isspace ch) (fmt_d i)"
    by (simp add: fmt_d_def ns minus)
  from all \<open>fmt_d i \<noteq> []\<close> show "\<not> isspace (hd (fmt_d i))" and "\<not> isspace (last (fmt_d i))"
    by (simp_all add: list_all_iff)
qed

lemma word_fmt_d: "word (fmt_d i)"
  by (simp add: word_def fmt_d_shape)

lemma py_int_fmt_d: "py_int (fmt_d i) = Some i"
proof -
  have s: "strip (fmt_d i) = fmt_d i"
    by (simp add: strip_id fmt_d_shape)
  show ?thesis
  proof (cases "i < 0")
    case True
    then have f: "fmt_d i = CHR ''-'' # digits (nat (- i))"
      by (simp add: fmt_d_def)
    have "digits (nat (- i)) \<noteq> []"
      using digits_props [of "nat (- i)"] by simp
    with True show ?thesis
      unfolding py_int_def s by (simp add: f nat_of_digits_digits Let_def)
  next
    case False
    then have f: "fmt_d i = digits (nat i)"
      by (simp add: fmt_d_def)
    have ne: "digits (nat i) \<noteq> []" and "is_digit (hd (digits (nat i)))"
      using digits_props [of "nat i"] by (simp_all add: list_all_iff)
    then have "hd (digits (nat i)) \<noteq> CHR ''-''" and "hd (digits (nat i)) \<noteq> CHR ''+''"
      by (simp_all add: is_digit_not_space)
    with False ne show ?thesis
      unfolding py_int_def s by (simp add: f nat_of_digits_digits Let_def)
  qed
qed

lemma is_digits_fmt_d: "is_digits (fmt_d (int n))"
  using digits_props [of n] by (simp add: is_digits_def fmt_d_def is_digit_def [abs_def])

lemma split_sp_last: "CHR 0x20 \<notin> set w \<Longrightarrow> split_sp w = [w]"
  by (induction w) auto

lemma split_sp_word: "CHR 0x20 \<notin> set w \<Longrightarrow> split_sp (w @ CHR 0x20 # r) = w # split_sp r"
  by (induction w) auto

lemma word_no_blank:
  assumes "word w"
  shows "CHR 0x20 \<notin> set w" and "CHR 0x0A \<notin> set w" and "w \<noteq> []"
  using assms by (auto simp: word_def list_all_iff isspace_def)

lemma readline_line:
  assumes "CHR 0x0A \<notin> set a"
  shows "readline \<lparr>pending = a @ CHR 0x0A # rest, at_end = e\<rparr>
           = (Inr (a @ [CHR 0x0A]), \<lparr>pending = rest, at_end = e\<rparr>)"
proof -
  from assms have "\<forall>x \<in> set a. x \<noteq> CHR 0x0A"
    by auto
  then have "takeWhile (\<lambda>ch. ch \<noteq> CHR 0x0A) (a @ CHR 0x0A # rest) = a"
    and "dropWhile (\<lambda>ch. ch \<noteq> CHR 0x0A) (a @ CHR 0x0A # rest) = CHR 0x0A # rest"
    by (simp_all add: takeWhile_append2 dropWhile_append2)
  then show ?thesis
    by (simp add: readline_def)
qed

lemma readline_crlf:
  assumes "CHR 0x0A \<notin> set a"
  shows "readline \<lparr>pending = a @ crlf @ rest, at_end = e\<rparr>
           = (Inr (a @ crlf), \<lparr>pending = rest, at_end = e\<rparr>)"
proof -
  from assms have "CHR 0x0A \<notin> set (a @ [CHR 0x0D])"
    by simp
  from readline_line [OF this, of rest e] show ?thesis
    by (simp add: crlf_def)
qed

lemma header_shape:
  assumes "word subj"
  shows "CHR 0x0A \<notin> set (header subj i n)"
    and "strip (header subj i n @ crlf) = header subj i n"
    and "split_sp (header subj i n) = [''MSG'', subj, fmt_d i, fmt_d (int n)]"
proof -
  note s = word_no_blank [OF assms]
  note a = word_no_blank [OF word_fmt_d [of i]]
  note b = word_no_blank [OF word_fmt_d [of "int n"]]
  show "CHR 0x0A \<notin> set (header subj i n)"
    using s a b by (simp add: header_def)
  have "last (header subj i n) = last (fmt_d (int n))"
    using b(3) by (simp add: header_def)
  then have "\<not> isspace (last (header subj i n))"
    by (simp add: fmt_d_shape)
  moreover have "\<not> isspace (hd (header subj i n))"
    by (simp add: header_def isspace_def)
  moreover have "header subj i n \<noteq> []"
    by (simp add: header_def)
  ultimately have "strip (header subj i n) = header subj i n"
    by (simp add: strip_id)
  then show "strip (header subj i n @ crlf) = header subj i n"
    by (simp add: strip_trailing crlf_spaces)
  have "split_sp (''MSG'' @ CHR 0x20 # subj @ CHR 0x20 # fmt_d i @ CHR 0x20 # fmt_d (int n))
          = ''MSG'' # split_sp (subj @ CHR 0x20 # fmt_d i @ CHR 0x20 # fmt_d (int n))"
    by (rule split_sp_word) simp
  also have "split_sp (subj @ CHR 0x20 # fmt_d i @ CHR 0x20 # fmt_d (int n))
          = subj # split_sp (fmt_d i @ CHR 0x20 # fmt_d (int n))"
    using s(1) by (rule split_sp_word)
  also have "split_sp (fmt_d i @ CHR 0x20 # fmt_d (int n)) = fmt_d i # split_sp (fmt_d (int n))"
    using a(1) by (rule split_sp_word)
  also have "split_sp (fmt_d (int n)) = [fmt_d (int n)]"
    using b(1) by (rule split_sp_last)
  finally have "split_sp (''MSG'' @ CHR 0x20 # subj @ CHR 0x20 # fmt_d i @ CHR 0x20 # fmt_d (int n))
          = [''MSG'', subj, fmt_d i, fmt_d (int n)]" .
  then show "split_sp (header subj i n) = [''MSG'', subj, fmt_d i, fmt_d (int n)]"
    by (simp add: header_def)
qed

lemma get_command_header:
  assumes "word subj"
  shows "get_command (header subj i n @ crlf) = Some MSG"
proof -
  have "split1 (header subj i n) ! 0 = ''MSG''"
    by (simp add: header_def split1_def)
  then show ?thesis
    by (simp add: get_command_def header_shape(2) [OF assms] commands_def)
qed

lemma match_line_header:
  assumes "word subj"
  shows "match_line MSG (header subj i n @ crlf)
           = Some (msg_groups subj (fmt_d i) None (fmt_d (int n)))"
proof -
  have "length crlf = 2"
    by (simp add: crlf_def)
  then have "2 \<le> length (header subj i n @ crlf)"
    and "drop (length (header subj i n @ crlf) - 2) (header subj i n @ crlf) = crlf"
    and "take (length (header subj i n @ crlf) - 2) (header subj i n @ crlf) = header subj i n"
    by simp_all
  moreover have "subj \<noteq> []" and "fmt_d i \<noteq> []"
    using word_no_blank(3) [OF assms] by (simp_all add: fmt_d_shape)
  ultimately show ?thesis
    by (simp add: match_line_def header_shape(3) [OF assms] is_digits_fmt_d)
qed

lemma recv_header:
  assumes "word subj"
    and "socket_file c = Some \<lparr>pending = header subj i n @ crlf @ rest, at_end = e\<rparr>"
  shows "recv c [MSG, PING, OK]
           = (Inr (MSG, msg_groups subj (fmt_d i) None (fmt_d (int n))),
              c\<lparr>socket_file := Some \<lparr>pending = rest, at_end = e\<rparr>\<rparr>)"
proof -
  have "readline \<lparr>pending = header subj i n @ crlf @ rest, at_end = e\<rparr>
          = (Inr (header subj i n @ crlf), \<lparr>pending = rest, at_end = e\<rparr>)"
    using header_shape(1) [OF assms(1)] by (rule readline_crlf)
  with assms(2) show ?thesis
    by (simp add: recv_def get_command_header [OF assms(1)] match_line_header [OF assms(1)])
qed

lemma build_msg_payload:
  assumes "CHR 0x0A \<notin> set p"
    and "socket_file c = Some \<lparr>pending = p @ crlf @ rest, at_end = e\<rparr>"
  shows "build_msg c (msg_groups subj (fmt_d i) rp (fmt_d (int n)))
           = (Inr \<lparr>msg_sid = i, msg_size = int n, msg_data = strip p,
                   msg_reply = map_option strip rp\<rparr>,
              c\<lparr>socket_file := Some \<lparr>pending = rest, at_end = e\<rparr>\<rparr>)"
proof -
  have "readline \<lparr>pending = p @ crlf @ rest, at_end = e\<rparr>
          = (Inr (p @ crlf), \<lparr>pending = rest, at_end = e\<rparr>)"
    using assms(1) by (rule readline_crlf)
  with assms(2) show ?thesis
    by (simp add: build_msg_def msg_groups_def getitem_def int_of_def py_int_fmt_d
          strip_trailing crlf_spaces)
qed

lemmas line_eval =
  readline_def get_command_def strip_def lstrip_def rstrip_def isspace_def split1_def
  commands_def match_line_def crlf_def is_digits_def Let_def

lemmas msg_eval =
  build_msg_def handle_msg_def sub_handle_msg_def msg_groups_def getitem_def int_of_def
  py_int_def digit_val_def


section \<open>Receive loop: the message count\<close>

text \<open>
  C1. \<^verbatim>\<open>wait(count=2)\<close> on a stream of three message frames, each accepted by a
  callback that returns \<^verbatim>\<open>None\<close>: the call returns after the first frame, because the
  test \<^verbatim>\<open>count >= total\<close> already holds when \<^verbatim>\<open>total\<close> is 1; two frames stay unread.
\<close>

theorem wait_count_two_handles_one:
  "wait (\<lambda>k. 100) (session_with (frame ''hi'' @ frame ''ho'' @ frame ''hu'')) None 2
     = (Inr (), session_with (frame ''ho'' @ frame ''hu''))"
proof -
  have "wait_body (\<lambda>k. 100) None 2 100 0 1 (session_with (frame ''hi'' @ frame ''ho'' @ frame ''hu''))
      = Break (session_with (frame ''ho'' @ frame ''hu''))"
    by (simp add: wait_body_def recv_def frame_def session_with_def sub_foo_def no_reply_def
          msg_eval line_eval)
  then show ?thesis
    by (simp add: wait_def wait_loop.simps)
qed


section \<open>Message payload\<close>

lemma build_msg_reads_line:
  assumes "build_msg c data = (Inr m, c1)"
  shows "map_option (apfst strip) (next_line c) = Some (msg_data m, c1)"
    and "declared_size data = Inr (msg_size m)"
proof -
  from assms obtain f where f: "socket_file c = Some f"
    by (cases "socket_file c") (simp_all add: build_msg_def split: sum.splits)
  obtain x f' where rl: "readline f = (x, f')"
    by (cases "readline f")
  from assms f rl obtain line where line: "x = Inr line"
    by (cases x) (simp_all add: build_msg_def split: sum.splits)
  from assms f rl line have "msg_data m = strip line" and "c1 = c\<lparr>socket_file := Some f'\<rparr>"
    and "declared_size data = Inr (msg_size m)"
    by (auto simp: build_msg_def declared_size_def Let_def split: sum.splits)
  with f rl line show "map_option (apfst strip) (next_line c) = Some (msg_data m, c1)"
    and "declared_size data = Inr (msg_size m)"
    by (simp_all add: next_line_def)
qed

lemma publish_sent:
  assumes "socket c = Some sk" and "plan_ok 2 sk"
  shows "publish c subj msg None
           = (Inr (),
              c\<lparr>socket := Some (sk\<lparr>sent := sent sk @ [(''PUB '' @ subj @ '' ''
                                  @ fmt_d (int (length msg))) @ crlf, msg @ crlf],
                                  send_plan := drop 2 (send_plan sk)\<rparr>)\<rparr>)"
proof (cases "send_plan sk")
  case Nil
  with assms(1) show ?thesis
    by (simp add: publish_def send_def sendall_def)
next
  case (Cons a plan)
  note outer = this
  show ?thesis
  proof (cases plan)
    case Nil
    with outer assms show ?thesis
      by (simp add: publish_def send_def sendall_def plan_ok_def)
  next
    case (Cons b plan')
    with outer assms show ?thesis
      by (simp add: publish_def send_def sendall_def plan_ok_def)
  qed
qed

lemma echo_received:
  assumes "word subj" and "CHR 0x0A \<notin> set p"
    and "socket_file c = Some \<lparr>pending = echo subj i p @ rest, at_end = e\<rparr>"
  shows "recv c [MSG, PING, OK]
           = (Inr (MSG, msg_groups subj (fmt_d i) None (fmt_d (int (length p)))),
              c\<lparr>socket_file := Some \<lparr>pending = p @ crlf @ rest, at_end = e\<rparr>\<rparr>)"
    and "build_msg (c\<lparr>socket_file := Some \<lparr>pending = p @ crlf @ rest, at_end = e\<rparr>\<rparr>)
             (msg_groups subj (fmt_d i) None (fmt_d (int (length p))))
           = (Inr \<lparr>msg_sid = i, msg_size = int (length p), msg_data = strip p, msg_reply = None\<rparr>,
              c\<lparr>socket_file := Some \<lparr>pending = rest, at_end = e\<rparr>\<rparr>)"
proof -
  from assms(3)
  have "socket_file c
          = Some \<lparr>pending = header subj i (length p) @ crlf @ (p @ crlf @ rest), at_end = e\<rparr>"
    by (simp add: echo_def)
  with assms(1) show "recv c [MSG, PING, OK]
           = (Inr (MSG, msg_groups subj (fmt_d i) None (fmt_d (int (length p)))),
              c\<lparr>socket_file := Some \<lparr>pending = p @ crlf @ rest, at_end = e\<rparr>\<rparr>)"
    by (rule recv_header)
  have "build_msg (c\<lparr>socket_file := Some \<lparr>pending = p @ crlf @ rest, at_end = e\<rparr>\<rparr>)
             (msg_groups subj (fmt_d i) None (fmt_d (int (length p))))
           = (Inr \<lparr>msg_sid = i, msg_size = int (length p), msg_data = strip p,
                   msg_reply = map_option strip None\<rparr>,
              c\<lparr>socket_file := Some \<lparr>pending = p @ crlf @ rest, at_end = e\<rparr>\<rparr>
               \<lparr>socket_file := Some \<lparr>pending = rest, at_end = e\<rparr>\<rparr>)"
    using assms(2) by (rule build_msg_payload) simp
  then show "build_msg (c\<lparr>socket_file := Some \<lparr>pending = p @ crlf @ rest, at_end = e\<rparr>\<rparr>)
             (msg_groups subj (fmt_d i) None (fmt_d (int (length p))))
           = (Inr \<lparr>msg_sid = i, msg_size = int (length p), msg_data = strip p, msg_reply = None\<rparr>,
              c\<lparr>socket_file := Some \<lparr>pending = rest, at_end = e\<rparr>\<rparr>)"
    by simp
qed

text \<open>
  C2, as the code has it. For every \<^verbatim>\<open>MSG\<close> frame from which a message is built, the
  payload is the next line of the stream with leading and trailing whitespace stripped,
  and the declared size is stored beside it without taking part in the read: another
  size in the header gives the same payload and leaves the stream at the same place. In
  particular, for a subject that is a word and a payload \<open>p\<close> without a line feed and
  without whitespace at either end: \<^verbatim>\<open>publish\<close> sends the size \<open>length p\<close> and then
  \<open>p\<close>, and the frame the broker echoes for it, with that size, is received as a
  \<^verbatim>\<open>MSG\<close> frame and yields the message with payload \<open>p\<close> and size \<open>length p\<close>, the rest
  of the stream unread.
\<close>

theorem payload_is_next_line_stripped:
  "(build_msg c data = (Inr m, c1) \<longrightarrow>
      map_option (apfst strip) (next_line c) = Some (msg_data m, c1)
      \<and> declared_size data = Inr (msg_size m)
      \<and> (build_msg c (data(''size'' := v)) = (Inr m', c1') \<longrightarrow>
           msg_data m' = msg_data m \<and> c1' = c1))
   \<and> (word subj \<and> CHR 0x0A \<notin> set p \<and> strip p = p
      \<and> socket c0 = Some sk \<and> plan_ok 2 sk
      \<and> socket_file c0 = Some \<lparr>pending = echo subj i p @ rest, at_end = e\<rparr>
      \<and> publish c0 subj p None = (r, c2) \<longrightarrow>
        r = Inr ()
        \<and> map_option sent (socket c2)
            = Some (sent sk @ [''PUB '' @ subj @ '' '' @ fmt_d (int (length p)) @ crlf, p @ crlf])
        \<and> recv c2 [MSG, PING, OK]
            = (Inr (MSG, msg_groups subj (fmt_d i) None (fmt_d (int (length p)))),
               c2\<lparr>socket_file := Some \<lparr>pending = p @ crlf @ rest, at_end = e\<rparr>\<rparr>)
        \<and> build_msg (c2\<lparr>socket_file := Some \<lparr>pending = p @ crlf @ rest, at_end = e\<rparr>\<rparr>)
              (msg_groups subj (fmt_d i) None (fmt_d (int (length p))))
            = (Inr \<lparr>msg_sid = i, msg_size = int (length p), msg_data = p, msg_reply = None\<rparr>,
               c2\<lparr>socket_file := Some \<lparr>pending = rest, at_end = e\<rparr>\<rparr>))"
proof (intro conjI impI)
  assume built: "build_msg c data = (Inr m, c1)"
  then show line: "map_option (apfst strip) (next_line c) = Some (msg_data m, c1)"
    by (rule build_msg_reads_line)
  from built show "declared_size data = Inr (msg_size m)"
    by (rule build_msg_reads_line)
  assume "build_msg c (data(''size'' := v)) = (Inr m', c1')"
  then have "map_option (apfst strip) (next_line c) = Some (msg_data m', c1')"
    by (rule build_msg_reads_line)
  with line show "msg_data m' = msg_data m" and "c1' = c1"
    by simp_all
next
  assume hyps: "word subj \<and> CHR 0x0A \<notin> set p \<and> strip p = p
      \<and> socket c0 = Some sk \<and> plan_ok 2 sk
      \<and> socket_file c0 = Some \<lparr>pending = echo subj i p @ rest, at_end = e\<rparr>
      \<and> publish c0 subj p None = (r, c2)"
  then have w: "word subj" and nl: "CHR 0x0A \<notin> set p" and bare: "strip p = p"
    and sk: "socket c0 = Some sk" and up: "plan_ok 2 sk"
    and fl: "socket_file c0 = Some \<lparr>pending = echo subj i p @ rest, at_end = e\<rparr>"
    and pub: "publish c0 subj p None = (r, c2)"
    by simp_all
  from publish_sent [OF sk up, of subj p] pub
  have r: "r = Inr ()"
    and c2: "c2 = c0\<lparr>socket := Some (sk\<lparr>sent := sent sk @ [(''PUB '' @ subj @ '' ''
                                  @ fmt_d (int (length p))) @ crlf, p @ crlf],
                                  send_plan := drop 2 (send_plan sk)\<rparr>)\<rparr>"
    by simp_all
  show "r = Inr ()"
    by (rule r)
  show "map_option sent (socket c2)
          = Some (sent sk @ [''PUB '' @ subj @ '' '' @ fmt_d (int (length p)) @ crlf, p @ crlf])"
    by (simp add: c2)
  from fl have fl2: "socket_file c2 = Some \<lparr>pending = echo subj i p @ rest, at_end = e\<rparr>"
    by (simp add: c2)
  from echo_received(1) [OF w nl fl2]
  show "recv c2 [MSG, PING, OK]
          = (Inr (MSG, msg_groups subj (fmt_d i) None (fmt_d (int (length p)))),
             c2\<lparr>socket_file := Some \<lparr>pending = p @ crlf @ rest, at_end = e\<rparr>\<rparr>)" .
  from echo_received(2) [OF w nl fl2] bare
  show "build_msg (c2\<lparr>socket_file := Some \<lparr>pending = p @ crlf @ rest, at_end = e\<rparr>\<rparr>)
              (msg_groups subj (fmt_d i) None (fmt_d (int (length p))))
            = (Inr \<lparr>msg_sid = i, msg_size = int (length p), msg_data = p, msg_reply = None\<rparr>,
               c2\<lparr>socket_file := Some \<lparr>pending = rest, at_end = e\<rparr>\<rparr>)"
    by simp
qed

theorem payload_is_next_line_stripped_witness:
  "build_msg (session_with (''hi'' @ crlf)) (msg_groups ''foo'' ''7'' None ''2'')
     = (Inr \<lparr>msg_sid = 7, msg_size = 2, msg_data = ''hi'', msg_reply = None\<rparr>, session_with [])
   \<and> build_msg (session_with (''hi'' @ crlf))
        ((msg_groups ''foo'' ''7'' None ''2'')(''size'' := Some (Some ''9'')))
     = (Inr \<lparr>msg_sid = 7, msg_size = 9, msg_data = ''hi'', msg_reply = None\<rparr>, session_with [])
   \<and> map_option (apfst strip) (next_line (session_with (''hi'' @ crlf)))
     = Some (''hi'', session_with [])
   \<and> declared_size (msg_groups ''foo'' ''7'' None ''2'') = Inr 2
   \<and> word ''foo'' \<and> CHR 0x0A \<notin> set ''hello'' \<and> strip ''hello'' = ''hello''
   \<and> plan_ok 2 \<lparr>sent = [], send_plan = []\<rparr>
   \<and> publish (session_with (echo ''foo'' 1 ''hello'')) ''foo'' ''hello'' None
     = (Inr (), hello_published)
   \<and> recv hello_published [MSG, PING, OK]
     = (Inr (MSG, msg_groups ''foo'' ''1'' None ''5''),
        hello_published\<lparr>socket_file := Some \<lparr>pending = ''hello'' @ crlf, at_end = Silent\<rparr>\<rparr>)
   \<and> build_msg (hello_published\<lparr>socket_file := Some \<lparr>pending = ''hello'' @ crlf, at_end = Silent\<rparr>\<rparr>)
        (msg_groups ''foo'' ''1'' None ''5'')
     = (Inr \<lparr>msg_sid = 1, msg_size = 5, msg_data = ''hello'', msg_reply = None\<rparr>,
        hello_published\<lparr>socket_file := Some \<lparr>pending = [], at_end = Silent\<rparr>\<rparr>)"
proof -
  have built: "build_msg (session_with (''hi'' @ crlf)) (msg_groups ''foo'' ''7'' None ''2'')
     = (Inr \<lparr>msg_sid = 7, msg_size = 2, msg_data = ''hi'', msg_reply = None\<rparr>, session_with [])"
    by (simp add: session_with_def msg_eval line_eval)
  have other: "build_msg (session_with (''hi'' @ crlf))
        ((msg_groups ''foo'' ''7'' None ''2'')(''size'' := Some (Some ''9'')))
     = (Inr \<lparr>msg_sid = 7, msg_size = 9, msg_data = ''hi'', msg_reply = None\<rparr>, session_with [])"
    by (simp add: session_with_def msg_eval line_eval)
  have w: "word ''foo''"
    by (simp add: word_def isspace_def)
  have nl: "CHR 0x0A \<notin> set ''hello''"
    by simp
  have bare: "strip ''hello'' = ''hello''"
    by (simp add: strip_def lstrip_def rstrip_def isspace_def)
  have sk: "socket (session_with (echo ''foo'' 1 ''hello'')) = Some \<lparr>sent = [], send_plan = []\<rparr>"
    by (simp add: session_with_def)
  have up: "plan_ok 2 \<lparr>sent = [], send_plan = []\<rparr>"
    by (simp add: plan_ok_def)
  have fl: "socket_file (session_with (echo ''foo'' 1 ''hello''))
       = Some \<lparr>pending = echo ''foo'' 1 ''hello'' @ [], at_end = Silent\<rparr>"
    by (simp add: session_with_def)
  have nums: "fmt_d 1 = ''1''" "fmt_d 5 = ''5''"
    by (simp_all add: fmt_d_def digits.simps digit_char_def)
  have pub: "publish (session_with (echo ''foo'' 1 ''hello'')) ''foo'' ''hello'' None
     = (Inr (), hello_published)"
    by (simp add: hello_published_def session_with_def publish_def send_def sendall_def nums)
  from payload_is_next_line_stripped
         [where c = "session_with (''hi'' @ crlf)" and data = "msg_groups ''foo'' ''7'' None ''2''"
            and m = "\<lparr>msg_sid = 7, msg_size = 2, msg_data = ''hi'', msg_reply = None\<rparr>"
            and ?c1.0 = "session_with []" and v = "Some (Some ''9'')"
            and m' = "\<lparr>msg_sid = 7, msg_size = 9, msg_data = ''hi'', msg_reply = None\<rparr>"
            and c1' = "session_with []"
            and subj = "''foo''" and p = "''hello''"
            and ?c0.0 = "session_with (echo ''foo'' 1 ''hello'')"
            and sk = "\<lparr>sent = [], send_plan = []\<rparr>" and i = 1 and rest = "[]"
            and e = Silent and r = "Inr ()" and ?c2.0 = hello_published]
    built other w nl bare sk up fl pub nums
  show ?thesis
    by simp
qed

text \<open>
  C2 as stated fails for the payload \<^verbatim>\<open>'a '\<close>: the declared size is 2, the message
  built from the frame carries the one byte \<^verbatim>\<open>'a'\<close>.
\<close>

theorem payload_is_stripped_line:
  "recv (session_with (echo ''foo'' 1 ''a '')) [MSG, PING, OK]
     = (Inr (MSG, msg_groups ''foo'' ''1'' None ''2''), session_with (''a '' @ crlf))
   \<and> build_msg (session_with (''a '' @ crlf)) (msg_groups ''foo'' ''1'' None ''2'')
     = (Inr \<lparr>msg_sid = 1, msg_size = 2, msg_data = ''a'', msg_reply = None\<rparr>, session_with [])
   \<and> int (length ''a'') \<noteq> 2 \<and> ''a'' \<noteq> ''a ''"
proof -
  have nums: "fmt_d 1 = ''1''" "fmt_d 2 = ''2''"
    by (simp_all add: fmt_d_def digits.simps digit_char_def)
  have "recv (session_with (echo ''foo'' 1 ''a '')) [MSG, PING, OK]
     = (Inr (MSG, msg_groups ''foo'' ''1'' None ''2''), session_with (''a '' @ crlf))"
    by (simp add: recv_def echo_def header_def nums session_with_def line_eval)
  moreover
  have "build_msg (session_with (''a '' @ crlf)) (msg_groups ''foo'' ''1'' None ''2'')
     = (Inr \<lparr>msg_sid = 1, msg_size = 2, msg_data = ''a'', msg_reply = None\<rparr>, session_with [])"
    by (simp add: session_with_def msg_eval line_eval)
  ultimately show ?thesis by simp
qed


section \<open>Unsubscribe: an id that is not registered\<close>

text \<open>
  C3. Unsubscribing a subscription whose id is not in the registry fails and leaves the
  registry as it was. The error is the \<^verbatim>\<open>KeyError\<close> of \<^verbatim>\<open>dict.pop\<close>, which the
  spec calls NotSubscribed, whenever the \<^verbatim>\<open>UNSUB\<close> frame before it could be sent;
  otherwise it is the error of the transport.
\<close>

theorem unsubscribe_unknown_id:
  assumes "subscriptions c (sid s) = None"
  shows "(\<exists>e. fst (unsubscribe c s) = Inl e)
       \<and> subscriptions (snd (unsubscribe c s)) = subscriptions c
       \<and> (sends_ok 1 c \<longrightarrow> fst (unsubscribe c s) = Inl KeyError)"
proof -
  obtain r c1 where s: "send c (''UNSUB '' @ fmt_d (sid s)) = (r, c1)"
    by (cases "send c (''UNSUB '' @ fmt_d (sid s))")
  have reg: "subscriptions c1 = subscriptions c"
    using send_registry(1) [of c "''UNSUB '' @ fmt_d (sid s)"] s by simp
  have sent: "r = Inr ()" if "sends_ok 1 c"
  proof -
    from that obtain sk where "socket c = Some sk" and "plan_ok (Suc 0) sk"
      by (auto simp: sends_ok_def split: option.splits)
    from send_ok [OF this] s show ?thesis by simp
  qed
  show ?thesis
  proof (cases r)
    case (Inl e)
    with s reg sent show ?thesis by (auto simp: unsubscribe_def)
  next
    case (Inr u)
    with s reg assms show ?thesis by (simp add: unsubscribe_def)
  qed
qed

theorem unsubscribe_unknown_id_witness:
  "subscriptions (session_with []) (sid (sub_foo\<lparr>sid := 7\<rparr>)) = None
   \<and> sends_ok 1 (session_with [])
   \<and> fst (unsubscribe (session_with []) (sub_foo\<lparr>sid := 7\<rparr>)) = Inl KeyError
   \<and> subscriptions (snd (unsubscribe (session_with []) (sub_foo\<lparr>sid := 7\<rparr>)))
       = subscriptions (session_with [])"
proof -
  have unknown: "subscriptions (session_with []) (sid (sub_foo\<lparr>sid := 7\<rparr>)) = None"
    by (simp add: session_with_def)
  have up: "sends_ok 1 (session_with [])"
    by (simp add: session_with_def sends_ok_def plan_ok_def)
  from unsubscribe_unknown_id [OF unknown] unknown up show ?thesis
    by blast
qed


section \<open>Receive loop: the duration\<close>

text \<open>
  The duration test is true for every duration that is set, on any clock that does not
  run backwards and started after the epoch, here with readings in whole seconds: how
  much time has passed plays no part.
\<close>

lemma duration_test_set:
  assumes "d \<noteq> 0"
    and "clock k = of_int a" and "clock (k + 1) = of_int b" and "start = of_int s"
    and "0 < s" and "s < 2 ^ 51" and "0 \<le> a" and "a \<le> b" and "b < 2 ^ 51"
  shows "duration_test clock k (Some d) start = (True, k + 2)"
proof -
  from assms have "\<bar>a - b\<bar> < 2 ^ 53" and "\<bar>a - b - s\<bar> < 2 ^ 53"
    by simp_all
  then have "to_float (of_int (a - b)) = of_int (a - b)"
    and "to_float (of_int (a - b - s)) = of_int (a - b - s)"
    by (simp_all only: to_float_int)
  then have "to_float (to_float (clock k - clock (k + 1)) - start) = of_int (a - b - s)"
    using assms(2-4) by simp
  moreover from assms have "a - b - s \<noteq> 0"
    by simp
  ultimately show ?thesis
    using assms(1) by (simp add: duration_test_def)
qed

text \<open>
  C4. \<^verbatim>\<open>wait(duration=3600)\<close> with a clock that advances one second per reading: the
  call returns after the first frame, two seconds after it started. The test
  \<^verbatim>\<open>time.time() - time.time() - start\<close> is the non-zero number -1001 here, and
  \<^verbatim>\<open>duration\<close> itself is never compared with anything.
\<close>

theorem wait_duration_ends_at_first_frame:
  "wait (\<lambda>k. 1000 + real k) (session_with (''+OK'' @ crlf @ frame ''hi'')) (Some 3600) 0
     = (Inr (), session_with (frame ''hi''))"
proof -
  have "wait_body (\<lambda>k. 1000 + real k) (Some 3600) 0 1000 0 1
          (session_with (''+OK'' @ crlf @ frame ''hi''))
      = Break (session_with (frame ''hi''))"
    by (simp add: wait_body_def recv_def end_of_body_def duration_test_def float_diffs
          frame_def session_with_def line_eval)
  then show ?thesis
    by (simp add: wait_def wait_loop.simps)
qed


section \<open>Subscribe\<close>

lemma subscribe_outcome:
  obtains (raised) e c1 where "subscribe c subj cb = (Inl e, c1)"
      and "next_sid c1 = next_sid c"
      and "subscriptions c1 = (subscriptions c)(next_sid c \<mapsto>
             \<lparr>sid = next_sid c, subject = subj, queue = [], callback = cb\<rparr>)"
  | (returned) s c1 where "subscribe c subj cb = (Inr s, c1)"
      and "s = \<lparr>sid = next_sid c, subject = subj, queue = [], callback = cb\<rparr>"
      and "next_sid c1 = next_sid c + 1"
      and "subscriptions c1 = (subscriptions c)(next_sid c \<mapsto> s)"
proof -
  define s where "s = \<lparr>sid = next_sid c, subject = subj, queue = [], callback = cb\<rparr>"
  define c0 where "c0 = c\<lparr>subscriptions := (subscriptions c)(next_sid c \<mapsto> s)\<rparr>"
  define cmd where "cmd = ''SUB '' @ subj @ '' '' @ [] @ '' '' @ fmt_d (next_sid c)"
  obtain r c2 where snd: "send c0 cmd = (r, c2)"
    by (cases "send c0 cmd")
  have keep: "subscriptions c2 = subscriptions c0" "next_sid c2 = next_sid c0"
    using send_registry(1,2) [of c0 cmd] snd by simp_all
  have sub: "subscribe c subj cb =
      (case r of Inl e \<Rightarrow> (Inl e, c2) | Inr u \<Rightarrow> (Inr s, c2\<lparr>next_sid := next_sid c2 + 1\<rparr>))"
    using snd by (simp add: subscribe_def Let_def s_def c0_def cmd_def split: sum.splits)
  show ?thesis
  proof (cases r)
    case (Inl e)
    with sub keep show ?thesis
      by (intro raised [of e c2]) (simp_all add: c0_def s_def)
  next
    case (Inr u)
    with sub keep show ?thesis
      by (intro returned [of s "c2\<lparr>next_sid := next_sid c2 + 1\<rparr>"]) (simp_all add: c0_def s_def)
  qed
qed

lemma after_subscribe:
  assumes "ids_at_most_next c"
  shows "after_call c (fst (subscribe c subj cb)) (snd (subscribe c subj cb))"
    and "ids_at_most_next (snd (subscribe c subj cb))"
    and "next_sid c \<le> next_sid (snd (subscribe c subj cb))"
proof -
  from subscribe_outcome [of c subj cb]
  have "after_call c (fst (subscribe c subj cb)) (snd (subscribe c subj cb))
      \<and> ids_at_most_next (snd (subscribe c subj cb))
      \<and> next_sid c \<le> next_sid (snd (subscribe c subj cb))"
  proof cases
    case (raised e c1)
    from assms raised(2,3) have "ids_at_most_next c1"
      by (auto simp: ids_at_most_next_def)
    moreover from raised(2,3) have "\<not> ids_below_next c1"
      by (auto simp: ids_below_next_def)
    ultimately show ?thesis
      using raised by (simp add: after_call_def)
  next
    case (returned s c1)
    from assms returned(3,4) have below: "ids_below_next c1"
      by (auto simp: ids_at_most_next_def ids_below_next_def)
    then have most: "ids_at_most_next c1"
      unfolding ids_at_most_next_def ids_below_next_def by (meson less_imp_le)
    have sid: "sid s = next_sid c"
      using returned(2) by simp
    have fresh: "subscriptions c (sid s) = None" if "ids_below_next c"
      using that sid unfolding ids_below_next_def by (metis domIff less_irrefl)
    from below most sid fresh returned show ?thesis
      by (simp add: after_call_def)
  qed
  then show "after_call c (fst (subscribe c subj cb)) (snd (subscribe c subj cb))"
    and "ids_at_most_next (snd (subscribe c subj cb))"
    and "next_sid c \<le> next_sid (snd (subscribe c subj cb))"
    by simp_all
qed

lemma subscribe_run_invariant:
  assumes "ids_at_most_next c"
  shows "sorted_wrt (<) (returned_ids (subscribe_run c calls))
       \<and> (\<forall>i \<in> set (returned_ids (subscribe_run c calls)). next_sid c \<le> i)
       \<and> (\<forall>(c0, r, c1) \<in> set (subscribe_run c calls). after_call c0 r c1)"
  using assms
proof (induction calls arbitrary: c)
  case Nil
  show ?case by simp
next
  case (Cons call calls)
  obtain subj cb where call: "call = (subj, cb)"
    by (cases call)
  define r where "r = fst (subscribe c subj cb)"
  define c1 where "c1 = snd (subscribe c subj cb)"
  note step = after_subscribe [OF Cons.prems, of subj cb, folded r_def c1_def]
  from Cons.IH [OF step(2)]
  have rest: "sorted_wrt (<) (returned_ids (subscribe_run c1 calls))"
    and low: "\<forall>i \<in> set (returned_ids (subscribe_run c1 calls)). next_sid c1 \<le> i"
    and all: "\<forall>(c0, r, c1) \<in> set (subscribe_run c1 calls). after_call c0 r c1"
    by simp_all
  have run: "subscribe_run c (call # calls) = (c, r, c1) # subscribe_run c1 calls"
    by (simp add: call r_def c1_def)
  show ?case
  proof (cases r)
    case (Inl e)
    with rest low all step show ?thesis
      unfolding run by auto
  next
    case (Inr s)
    with step(1) have "sid s = next_sid c" and "next_sid c1 = next_sid c + 1"
      by (simp_all add: after_call_def)
    with low have "\<forall>i \<in> set (returned_ids (subscribe_run c1 calls)). sid s < i"
      by auto
    with rest low all step Inr \<open>sid s = next_sid c\<close> \<open>next_sid c1 = next_sid c + 1\<close>
    show ?thesis
      unfolding run by auto
  qed
qed

lemma init_ids: "ids_at_most_next init"
  by (simp add: ids_at_most_next_def init_def)

lemma unsubscribe_ids:
  assumes "ids_at_most_next c"
  shows "ids_at_most_next (snd (unsubscribe c s))"
proof -
  obtain r c1 where snd: "send c (''UNSUB '' @ fmt_d (sid s)) = (r, c1)"
    by (cases "send c (''UNSUB '' @ fmt_d (sid s))")
  then have "subscriptions c1 = subscriptions c" "next_sid c1 = next_sid c"
    using send_registry(1,2) [of c "''UNSUB '' @ fmt_d (sid s)"] by simp_all
  with assms snd show ?thesis
    by (auto simp: unsubscribe_def ids_at_most_next_def split: sum.splits option.splits)
qed

text \<open>
  C5, as the code has it. In every sequence of \<^verbatim>\<open>subscribe\<close> calls, started where no
  registered id exceeds the counter, the ids of the subscriptions that are returned are
  strictly increasing, hence distinct, and every call leaves the connection as
  \<open>after_call\<close> says: after a call that returns the counter is above every registered
  id; after a call that raises it is not, it equals the id just stored.
\<close>

theorem subscribe_ids_after_each_call:
  assumes "ids_at_most_next c"
  shows "sorted_wrt (<) (returned_ids (subscribe_run c calls))
       \<and> distinct (returned_ids (subscribe_run c calls))
       \<and> (\<forall>(c0, r, c1) \<in> set (subscribe_run c calls). after_call c0 r c1)"
proof -
  from assms have inv: "sorted_wrt (<) (returned_ids (subscribe_run c calls))
       \<and> (\<forall>i \<in> set (returned_ids (subscribe_run c calls)). next_sid c \<le> i)
       \<and> (\<forall>(c0, r, c1) \<in> set (subscribe_run c calls). after_call c0 r c1)"
    by (rule subscribe_run_invariant)
  then have "distinct (returned_ids (subscribe_run c calls))"
    by (simp add: strict_sorted_iff)
  with inv show ?thesis by simp
qed

theorem subscribe_ids_after_each_call_witness:
  "ids_at_most_next flaky
   \<and> returned_ids (subscribe_run flaky [(''a'', no_reply), (''b'', no_reply), (''c'', no_reply)])
       = [2, 3]
   \<and> sorted_wrt (<)
        (returned_ids (subscribe_run flaky [(''a'', no_reply), (''b'', no_reply), (''c'', no_reply)]))
   \<and> distinct
        (returned_ids (subscribe_run flaky [(''a'', no_reply), (''b'', no_reply), (''c'', no_reply)]))
   \<and> after_call flaky (fst (subscribe flaky ''a'' no_reply)) (snd (subscribe flaky ''a'' no_reply))
   \<and> after_call (snd (subscribe flaky ''a'' no_reply))
         (fst (subscribe (snd (subscribe flaky ''a'' no_reply)) ''b'' no_reply))
         (snd (subscribe (snd (subscribe flaky ''a'' no_reply)) ''b'' no_reply))
   \<and> fst (subscribe flaky ''a'' no_reply)
       = Inr \<lparr>sid = 2, subject = ''a'', queue = [], callback = no_reply\<rparr>
   \<and> fst (subscribe (snd (subscribe flaky ''a'' no_reply)) ''b'' no_reply) = Inl SocketError"
proof -
  have inv: "ids_at_most_next flaky"
    by (simp add: ids_at_most_next_def flaky_def session_with_def)
  have ids: "returned_ids (subscribe_run flaky [(''a'', no_reply), (''b'', no_reply), (''c'', no_reply)])
               = [2, 3]"
    by (simp add: flaky_def session_with_def subscribe_def send_def sendall_def Let_def)
  have outcomes: "fst (subscribe flaky ''a'' no_reply)
       = Inr \<lparr>sid = 2, subject = ''a'', queue = [], callback = no_reply\<rparr>"
    "fst (subscribe (snd (subscribe flaky ''a'' no_reply)) ''b'' no_reply) = Inl SocketError"
    by (simp_all add: flaky_def session_with_def subscribe_def send_def sendall_def Let_def)
  note run = subscribe_ids_after_each_call
         [OF inv, of "[(''a'', no_reply), (''b'', no_reply), (''c'', no_reply)]"]
  from run have "sorted_wrt (<)
        (returned_ids (subscribe_run flaky [(''a'', no_reply), (''b'', no_reply), (''c'', no_reply)]))"
    and "distinct
        (returned_ids (subscribe_run flaky [(''a'', no_reply), (''b'', no_reply), (''c'', no_reply)]))"
    by blast+
  moreover from run
  have "after_call flaky (fst (subscribe flaky ''a'' no_reply)) (snd (subscribe flaky ''a'' no_reply))"
    and "after_call (snd (subscribe flaky ''a'' no_reply))
         (fst (subscribe (snd (subscribe flaky ''a'' no_reply)) ''b'' no_reply))
         (snd (subscribe (snd (subscribe flaky ''a'' no_reply)) ''b'' no_reply))"
    by (simp_all add: case_prod_beta)
  ultimately show ?thesis
    using inv ids outcomes by blast
qed

text \<open>
  C5 as stated fails when the \<^verbatim>\<open>SUB\<close> frame cannot be sent: the subscription is stored
  under id 2 and the counter stays at 2, so the counter is not above every registered id,
  and the next call hands out id 2 again while the first subscription is still registered
  under it.
\<close>

theorem failed_subscribe_keeps_counter:
  "fst (subscribe lossy ''a'' no_reply) = Inl SocketError
   \<and> next_sid (snd (subscribe lossy ''a'' no_reply)) = 2
   \<and> subscriptions (snd (subscribe lossy ''a'' no_reply)) 2
       = Some \<lparr>sid = 2, subject = ''a'', queue = [], callback = no_reply\<rparr>
   \<and> \<not> ids_below_next (snd (subscribe lossy ''a'' no_reply))
   \<and> fst (subscribe (snd (subscribe lossy ''a'' no_reply)) ''b'' no_reply)
       = Inr \<lparr>sid = 2, subject = ''b'', queue = [], callback = no_reply\<rparr>"
  by (simp add: lossy_def session_with_def subscribe_def send_def sendall_def Let_def
        ids_below_next_def)


section \<open>Receive loop: keepalive\<close>





section \<open>Publish\<close>

text \<open>
  C7. On a working transport \<^verbatim>\<open>publish\<close> sends exactly two lines, each ended by CR LF:
  \<^verbatim>\<open>PUB <subject> <size>\<close>, or \<^verbatim>\<open>PUB <subject> <reply> <size>\<close> when a reply subject
  is given, with the size computed as the length of the payload (the decimal text that
  \<^verbatim>\<open>int\<close> reads back as that length), and then the payload itself. Nothing is read
  from the broker.
\<close>

theorem publish_two_lines:
  assumes "socket c = Some sk" and "plan_ok 2 sk"
  shows "fst (publish c subj msg reply) = Inr ()
       \<and> map_option sent (socket (snd (publish c subj msg reply)))
           = Some (sent sk @
               [(case reply of
                   None \<Rightarrow> ''PUB '' @ subj @ '' '' @ fmt_d (int (length msg))
                 | Some r \<Rightarrow> ''PUB '' @ subj @ '' '' @ r @ '' '' @ fmt_d (int (length msg))) @ crlf,
                msg @ crlf])
       \<and> socket_file (snd (publish c subj msg reply)) = socket_file c
       \<and> py_int (fmt_d (int (length msg))) = Some (int (length msg))"
proof -
  define command where "command =
    (case reply of
       None \<Rightarrow> ''PUB '' @ subj @ '' '' @ fmt_d (int (length msg))
     | Some r \<Rightarrow> ''PUB '' @ subj @ '' '' @ r @ '' '' @ fmt_d (int (length msg)))"
  define sk1 where "sk1 = snd (sendall sk (command @ crlf))"
  define sk2 where "sk2 = snd (sendall sk1 (msg @ crlf))"
  from assms(2) have two: "plan_ok (Suc (Suc 0)) sk"
    by (simp add: numeral_2_eq_2)
  have first: "send c command = (Inr (), c\<lparr>socket := Some sk1\<rparr>)"
    unfolding sk1_def using assms(1) two by (rule send_ok)
  have one: "plan_ok (Suc 0) sk1" and sent1: "sent sk1 = sent sk @ [command @ crlf]"
    unfolding sk1_def using two by (simp_all add: sendall_ok)
  have "send (c\<lparr>socket := Some sk1\<rparr>) msg
          = (Inr (), c\<lparr>socket := Some sk1\<rparr>\<lparr>socket := Some sk2\<rparr>)"
    unfolding sk2_def using _ one by (rule send_ok) simp
  moreover have "sent sk2 = sent sk1 @ [msg @ crlf]"
    unfolding sk2_def using one by (simp add: sendall_ok)
  ultimately have "publish c subj msg reply = (Inr (), c\<lparr>socket := Some sk2\<rparr>)"
    and "sent sk2 = sent sk @ [command @ crlf, msg @ crlf]"
    using first sent1 by (simp_all add: publish_def command_def)
  then show ?thesis
    by (simp add: command_def py_int_fmt_d)
qed

theorem publish_two_lines_witness:
  "socket (session_with []) = Some \<lparr>sent = [], send_plan = []\<rparr>
   \<and> plan_ok 2 \<lparr>sent = [], send_plan = []\<rparr>
   \<and> fst (publish (session_with []) ''foo'' ''hello'' None) = Inr ()
   \<and> map_option sent (socket (snd (publish (session_with []) ''foo'' ''hello'' None)))
       = Some [''PUB foo 5'' @ crlf, ''hello'' @ crlf]
   \<and> map_option sent (socket (snd (publish (session_with []) ''foo'' ''hello'' (Some ''bar''))))
       = Some [''PUB foo bar 5'' @ crlf, ''hello'' @ crlf]"
proof -
  have sk: "socket (session_with []) = Some \<lparr>sent = [], send_plan = []\<rparr>"
    by (simp add: session_with_def)
  have up: "plan_ok 2 \<lparr>sent = [], send_plan = []\<rparr>"
    by (simp add: plan_ok_def)
  have five: "fmt_d 5 = ''5''"
    by (simp add: fmt_d_def digits.simps digit_char_def)
  from publish_two_lines [OF sk up, of "''foo''" "''hello''" None]
    publish_two_lines [OF sk up, of "''foo''" "''hello''" "Some ''bar''"] sk up five
  show ?thesis by simp
qed


section \<open>Close\<close>

text \<open>
  C8. \<^verbatim>\<open>close\<close> returns without touching the connection: socket and file object stay
  as they were, so the transport is not released by it, and a \<^verbatim>\<open>publish\<close> after it
  does what it would have done before.
\<close>

theorem close_keeps_transport:
  "close c = (Inr (), c)
   \<and> socket (snd (close c)) = socket c
   \<and> socket_file (snd (close c)) = socket_file c
   \<and> publish (snd (close c)) subj msg reply = publish c subj msg reply"
proof -
  have "close c = (Inr (), c)"
    by (simp add: close_def)
  then show ?thesis
    by simp
qed


section \<open>Dispatch to a missing subscription\<close>

text \<open>
  C9. When the subscription id of a \<^verbatim>\<open>MSG\<close> frame is not in the registry, the lookup
  yields \<^verbatim>\<open>None\<close>, the call of \<^verbatim>\<open>handle_msg\<close> on it raises, and the receive loop ends
  with that error; the frame is not skipped.
\<close>

theorem unknown_sid_raises:
  assumes "recv c [MSG, PING, OK] = (Inr (MSG, result), c1)"
    and "build_msg c1 result = (Inr msg, c2)"
    and "subscriptions c (msg_sid msg) = None"
  shows "handle_msg c1 result = (Inl AttributeError, c2)
       \<and> wait_loop clock duration count start total_n k c = (Inl AttributeError, c2)"
proof -
  have "subscriptions c2 = subscriptions c1"
    using build_msg_registry(1) [of c1 result] assms(2) by simp
  also have "\<dots> = subscriptions c"
    using recv_registry(1) [of c "[MSG, PING, OK]"] assms(1) by simp
  finally have "subscriptions c2 (msg_sid msg) = None"
    using assms(3) by simp
  with assms(2) have h: "handle_msg c1 result = (Inl AttributeError, c2)"
    by (simp add: handle_msg_def)
  with assms(1) have "wait_body clock duration count start total_n k c = Raised AttributeError c2"
    by (simp add: wait_body_def)
  then have "wait_loop clock duration count start total_n k c = (Inl AttributeError, c2)"
    by (simp add: wait_loop.simps)
  with h show ?thesis by simp
qed

theorem unknown_sid_raises_witness:
  "recv (session_with (''MSG foo 7 2'' @ crlf @ ''hi'' @ crlf)) [MSG, PING, OK]
     = (Inr (MSG, msg_groups ''foo'' ''7'' None ''2''), session_with (''hi'' @ crlf))
   \<and> build_msg (session_with (''hi'' @ crlf)) (msg_groups ''foo'' ''7'' None ''2'')
     = (Inr \<lparr>msg_sid = 7, msg_size = 2, msg_data = ''hi'', msg_reply = None\<rparr>, session_with [])
   \<and> subscriptions (session_with (''MSG foo 7 2'' @ crlf @ ''hi'' @ crlf)) 7 = None
   \<and> wait (\<lambda>k. 100) (session_with (''MSG foo 7 2'' @ crlf @ ''hi'' @ crlf)) None 0
     = (Inl AttributeError, session_with [])"
proof -
  have header: "recv (session_with (''MSG foo 7 2'' @ crlf @ ''hi'' @ crlf)) [MSG, PING, OK]
      = (Inr (MSG, msg_groups ''foo'' ''7'' None ''2''), session_with (''hi'' @ crlf))"
    by (simp add: recv_def session_with_def line_eval)
  have built: "build_msg (session_with (''hi'' @ crlf)) (msg_groups ''foo'' ''7'' None ''2'')
      = (Inr \<lparr>msg_sid = 7, msg_size = 2, msg_data = ''hi'', msg_reply = None\<rparr>, session_with [])"
    by (simp add: session_with_def msg_eval line_eval)
  have unknown: "subscriptions (session_with (''MSG foo 7 2'' @ crlf @ ''hi'' @ crlf))
      (msg_sid \<lparr>msg_sid = 7, msg_size = 2, msg_data = ''hi'', msg_reply = None\<rparr>) = None"
    by (simp add: session_with_def)
  from unknown_sid_raises [OF header built unknown, of "\<lambda>k. 100" None 0 100 0 1]
    header built unknown
  show ?thesis by (simp add: wait_def)
qed


section \<open>Unsubscribe: the frame goes first\<close>

text \<open>
  C10. The \<^verbatim>\<open>UNSUB <sid>\<close> frame goes out before the registry is touched: on a working
  transport exactly one such frame is appended to what was sent, whether the id is
  registered (the entry is then removed) or not (the call then fails with the registry
  unchanged, the frame already sent).
\<close>

theorem unsubscribe_sends_before_pop:
  assumes "socket c = Some sk" and "plan_ok 1 sk"
  shows "map_option sent (socket (snd (unsubscribe c s)))
           = Some (sent sk @ [''UNSUB '' @ fmt_d (sid s) @ crlf])
       \<and> (subscriptions c (sid s) = None \<longrightarrow>
            fst (unsubscribe c s) = Inl KeyError
            \<and> subscriptions (snd (unsubscribe c s)) = subscriptions c)
       \<and> (subscriptions c (sid s) \<noteq> None \<longrightarrow>
            fst (unsubscribe c s) = Inr ()
            \<and> subscriptions (snd (unsubscribe c s)) = (subscriptions c)(sid s := None))"
proof -
  from assms have s: "send c (''UNSUB '' @ fmt_d (sid s))
      = (Inr (), c\<lparr>socket := Some (snd (sendall sk ((''UNSUB '' @ fmt_d (sid s)) @ crlf)))\<rparr>)"
    by (simp add: send_ok)
  from assms(2) have "sent (snd (sendall sk ((''UNSUB '' @ fmt_d (sid s)) @ crlf)))
      = sent sk @ [(''UNSUB '' @ fmt_d (sid s)) @ crlf]"
    by (simp add: sendall_ok(2))
  with s show ?thesis
    by (cases "subscriptions c (sid s)") (simp_all add: unsubscribe_def)
qed

theorem unsubscribe_sends_before_pop_witness:
  "socket (session_with []) = Some \<lparr>sent = [], send_plan = []\<rparr>
   \<and> plan_ok 1 \<lparr>sent = [], send_plan = []\<rparr>
   \<and> subscriptions (session_with []) (sid (sub_foo\<lparr>sid := 7\<rparr>)) = None
   \<and> fst (unsubscribe (session_with []) (sub_foo\<lparr>sid := 7\<rparr>)) = Inl KeyError
   \<and> map_option sent (socket (snd (unsubscribe (session_with []) (sub_foo\<lparr>sid := 7\<rparr>))))
       = Some [''UNSUB 7'' @ crlf]"
proof -
  have sk: "socket (session_with []) = Some \<lparr>sent = [], send_plan = []\<rparr>"
    by (simp add: session_with_def)
  have up: "plan_ok 1 \<lparr>sent = [], send_plan = []\<rparr>"
    by (simp add: plan_ok_def)
  have unknown: "subscriptions (session_with []) (sid (sub_foo\<lparr>sid := 7\<rparr>)) = None"
    by (simp add: session_with_def)
  have seven: "fmt_d 7 = ''7''"
    by (simp add: fmt_d_def digits.simps digit_char_def)
  from unsubscribe_sends_before_pop [OF sk up, of "sub_foo\<lparr>sid := 7\<rparr>"] sk up unknown seven
  show ?thesis by simp
qed

end
